theory Spec2Isabelle
  imports Complex_Main "HOL-Library.AList" "HOL-Library.Multiset"
begin

section \<open>The schema-driven form engine of firebase-autoform\<close>

text \<open>
  This theory embeds the form engine of
  \<^verbatim>\<open>packages/firebase-autoform/src/firebase-autoform.js\<close>: the value store
  (\<^verbatim>\<open>_initializeValues\<close>, \<^verbatim>\<open>_handleInput\<close>), the validation engine
  (\<^verbatim>\<open>_validateField\<close>, \<^verbatim>\<open>_isValidEmail\<close>, \<^verbatim>\<open>_validateForm\<close>), the
  submission coordinator (\<^verbatim>\<open>_handleSubmit\<close>, \<^verbatim>\<open>_handleReset\<close>) and the group
  partitioner (\<^verbatim>\<open>_groupFields\<close>).
\<close>

subsection \<open>JavaScript values\<close>

text \<open>
  A JavaScript number is a double. The component never computes with numbers, it only
  compares them, so a finite number is modelled by the rational it denotes (both zeros
  by \<open>0\<close>), next to the three special values. Comparison of doubles agrees with
  comparison of the rationals they denote.
\<close>

datatype jsnum = NaN | NegInf | Fin rat | PosInf

text \<open>
  The values that a form field can hold are the primitive values. A string is a list of
  code units, one \<^typ>\<open>char\<close> each (code units below 256). Object values (arrays,
  nested records) are not modelled.
\<close>

datatype jsval = JUndefined | JNull | JBool bool | JNum jsnum | JStr string

datatype js_error = TypeError | SyntaxError | Rejection string

text \<open>
  What the component uses of the JavaScript engine without defining it: the conversion of
  a non-empty string to a number, the conversion of a number to a string (used by
  template literals and by \<^verbatim>\<open>RegExp.prototype.test\<close>), the regular-expression
  compiler (\<open>None\<close> when \<^verbatim>\<open>new RegExp(p)\<close> throws a SyntaxError, otherwise the
  test function of the compiled expression), and the text of the \<^verbatim>\<open>message\<close> of
  the errors that the engine itself raises.
\<close>

record js_engine =
  StringToNumber :: "string \<Rightarrow> jsnum"
  NumberToString :: "jsnum \<Rightarrow> string"
  RegExp :: "string \<Rightarrow> (string \<Rightarrow> bool) option"
  Error_message :: "js_error \<Rightarrow> string"

text \<open>\<^verbatim>\<open>x < y\<close> on numbers: false as soon as one side is NaN.\<close>

fun num_lt :: "jsnum \<Rightarrow> jsnum \<Rightarrow> bool" where
  "num_lt NaN y = False"
| "num_lt x NaN = False"
| "num_lt PosInf y = False"
| "num_lt x NegInf = False"
| "num_lt NegInf y = True"
| "num_lt x PosInf = True"
| "num_lt (Fin a) (Fin b) = (a < b)"

text \<open>ToBoolean of a number: \<open>0\<close> and NaN are falsy.\<close>

fun num_truthy :: "jsnum \<Rightarrow> bool" where
  "num_truthy NaN = False"
| "num_truthy (Fin a) = (a \<noteq> 0)"
| "num_truthy NegInf = True"
| "num_truthy PosInf = True"

text \<open>ToBoolean of a value.\<close>

fun truthy :: "jsval \<Rightarrow> bool" where
  "truthy JUndefined = False"
| "truthy JNull = False"
| "truthy (JBool b) = b"
| "truthy (JNum n) = num_truthy n"
| "truthy (JStr s) = (s \<noteq> [])"

text \<open>ToNumber of a value; the empty string converts to \<open>0\<close>.\<close>

fun ToNumber :: "js_engine \<Rightarrow> jsval \<Rightarrow> jsnum" where
  "ToNumber env JUndefined = NaN"
| "ToNumber env JNull = Fin 0"
| "ToNumber env (JBool b) = (if b then Fin 1 else Fin 0)"
| "ToNumber env (JNum n) = n"
| "ToNumber env (JStr s) = (if s = [] then Fin 0 else StringToNumber env s)"

text \<open>ToString of a value.\<close>

fun ToString :: "js_engine \<Rightarrow> jsval \<Rightarrow> string" where
  "ToString env JUndefined = ''undefined''"
| "ToString env JNull = ''null''"
| "ToString env (JBool b) = (if b then ''true'' else ''false'')"
| "ToString env (JNum n) = NumberToString env n"
| "ToString env (JStr s) = s"

text \<open>
  \<^verbatim>\<open>value.length\<close>: a TypeError on \<^verbatim>\<open>null\<close> and \<^verbatim>\<open>undefined\<close>, the number of
  code units of a string, \<^verbatim>\<open>undefined\<close> on a boolean or a number.
\<close>

fun get_length :: "jsval \<Rightarrow> js_error + jsval" where
  "get_length JUndefined = Inl TypeError"
| "get_length JNull = Inl TypeError"
| "get_length (JBool b) = Inr JUndefined"
| "get_length (JNum n) = Inr JUndefined"
| "get_length (JStr s) = Inr (JNum (Fin (of_nat (length s))))"

text \<open>
  \<^verbatim>\<open>a < n\<close> and \<^verbatim>\<open>a > n\<close> where the right operand \<open>n\<close> is a number: the left
  operand is converted with ToNumber.
\<close>

definition js_lt :: "js_engine \<Rightarrow> jsval \<Rightarrow> jsnum \<Rightarrow> bool" where
  "js_lt env a n = num_lt (ToNumber env a) n"

definition js_gt :: "js_engine \<Rightarrow> jsval \<Rightarrow> jsnum \<Rightarrow> bool" where
  "js_gt env a n = num_lt n (ToNumber env a)"

subsection \<open>Field schemas\<close>

text \<open>
  The properties of a \<^verbatim>\<open>FieldSchema\<close> that the engine reads, typed as in its
  declaration (\<^verbatim>\<open>min?: number\<close>, \<^verbatim>\<open>pattern?: string\<close>, \<^verbatim>\<open>default?: unknown\<close>, ...).
  An optional number or string that is absent is \<open>None\<close>; an absent \<^verbatim>\<open>required\<close> is
  \<open>False\<close>; an absent \<^verbatim>\<open>default\<close> is \<open>JUndefined\<close>, which is what the source tests.
\<close>

record FieldSchema =
  type_f :: string
  required :: bool
  default_f :: jsval
  min_f :: "jsnum option"
  max_f :: "jsnum option"
  minLength :: "jsnum option"
  maxLength :: "jsnum option"
  pattern :: "string option"
  group :: "string option"

subsection \<open>The validation rules\<close>

text \<open>
  \<^verbatim>\<open>/^[^\s@]+@[^\s@]+\.[^\s@]+$/.test(email)\<close>: one \<^verbatim>\<open>@\<close>, no white space, a
  non-empty local part, and after the \<^verbatim>\<open>@\<close> a dot that is neither the first nor the
  last character.
\<close>

definition is_space :: "char \<Rightarrow> bool" where
  "is_space c = (of_char c \<in> {9, 10, 11, 12, 13, 32, 160 :: nat})"

definition email_char :: "char \<Rightarrow> bool" where
  "email_char c = (\<not> is_space c \<and> c \<noteq> CHR ''@'')"

definition isValidEmail :: "string \<Rightarrow> bool" where
  "isValidEmail email =
     (let local = takeWhile (\<lambda>c. c \<noteq> CHR ''@'') email;
          rest = dropWhile (\<lambda>c. c \<noteq> CHR ''@'') email
      in local \<noteq> [] \<and> list_all email_char local \<and> rest \<noteq> [] \<and>
         list_all email_char (tl rest) \<and> CHR ''.'' \<in> set (butlast (tl (tl rest))))"

text \<open>The three values on which the required rule fires.\<close>

definition is_empty :: "jsval \<Rightarrow> bool" where
  "is_empty value = (value = JStr [] \<or> value = JNull \<or> value = JUndefined)"

text \<open>
  The rules of \<^verbatim>\<open>_validateField\<close>, one definition for each branch of its
  \<^verbatim>\<open>if\<close> / \<^verbatim>\<open>else if\<close> chain: the message the branch stores when its condition
  holds, \<open>None\<close> when the condition is false, an error when evaluating the condition
  throws.

  \<^verbatim>\<open>field.required && (value === '' || value === null || value === undefined)\<close>
\<close>

definition required_rule :: "FieldSchema \<Rightarrow> jsval \<Rightarrow> string option" where
  "required_rule field value =
     (if required field \<and> is_empty value then Some ''This field is required'' else None)"

text \<open>\<^verbatim>\<open>field.type === 'email' && value && !this._isValidEmail(value)\<close>\<close>

definition email_rule :: "js_engine \<Rightarrow> FieldSchema \<Rightarrow> jsval \<Rightarrow> string option" where
  "email_rule env field value =
     (if type_f field = ''email'' \<and> truthy value \<and> \<not> isValidEmail (ToString env value)
      then Some ''Please enter a valid email'' else None)"

text \<open>
  \<^verbatim>\<open>field.minLength && value.length < field.minLength\<close> and
  \<^verbatim>\<open>field.maxLength && value.length > field.maxLength\<close>. The left conjunct is
  evaluated first; \<^verbatim>\<open>value.length\<close> is read only when it is truthy.
\<close>

definition minLength_rule :: "js_engine \<Rightarrow> FieldSchema \<Rightarrow> jsval \<Rightarrow> js_error + string option" where
  "minLength_rule env field value =
     (case minLength field of
        None \<Rightarrow> Inr None
      | Some n \<Rightarrow>
          if \<not> num_truthy n then Inr None
          else (case get_length value of
                  Inl e \<Rightarrow> Inl e
                | Inr len \<Rightarrow>
                    if js_lt env len n
                    then Inr (Some (''Minimum '' @ NumberToString env n @ '' characters required''))
                    else Inr None))"

definition maxLength_rule :: "js_engine \<Rightarrow> FieldSchema \<Rightarrow> jsval \<Rightarrow> js_error + string option" where
  "maxLength_rule env field value =
     (case maxLength field of
        None \<Rightarrow> Inr None
      | Some n \<Rightarrow>
          if \<not> num_truthy n then Inr None
          else (case get_length value of
                  Inl e \<Rightarrow> Inl e
                | Inr len \<Rightarrow>
                    if js_gt env len n
                    then Inr (Some (''Maximum '' @ NumberToString env n @ '' characters allowed''))
                    else Inr None))"

text \<open>\<^verbatim>\<open>field.min !== undefined && value < field.min\<close>, and the same for \<^verbatim>\<open>max\<close>.\<close>

definition min_rule :: "js_engine \<Rightarrow> FieldSchema \<Rightarrow> jsval \<Rightarrow> string option" where
  "min_rule env field value =
     (case min_f field of
        None \<Rightarrow> None
      | Some n \<Rightarrow>
          if js_lt env value n then Some (''Minimum value is '' @ NumberToString env n)
          else None)"

definition max_rule :: "js_engine \<Rightarrow> FieldSchema \<Rightarrow> jsval \<Rightarrow> string option" where
  "max_rule env field value =
     (case max_f field of
        None \<Rightarrow> None
      | Some n \<Rightarrow>
          if js_gt env value n then Some (''Maximum value is '' @ NumberToString env n)
          else None)"

text \<open>
  \<^verbatim>\<open>field.pattern && value && !new RegExp(field.pattern).test(value)\<close>: the expression
  is compiled only when the pattern and the value are truthy.
\<close>

definition pattern_rule :: "js_engine \<Rightarrow> FieldSchema \<Rightarrow> jsval \<Rightarrow> js_error + string option" where
  "pattern_rule env field value =
     (case pattern field of
        None \<Rightarrow> Inr None
      | Some p \<Rightarrow>
          if p = [] \<or> \<not> truthy value then Inr None
          else (case RegExp env p of
                  None \<Rightarrow> Inl SyntaxError
                | Some test \<Rightarrow>
                    if \<not> test (ToString env value) then Inr (Some ''Invalid format'')
                    else Inr None))"

text \<open>
  The chain itself: the first rule, in the order of the source, that has a message or
  throws decides; the result is the message stored for the field (\<open>None\<close> when none is
  stored) or the error thrown.
\<close>

definition validateField_rules ::
    "js_engine \<Rightarrow> FieldSchema \<Rightarrow> jsval \<Rightarrow> js_error + string option" where
  "validateField_rules env field value =
     (case required_rule field value of
        Some m \<Rightarrow> Inr (Some m)
      | None \<Rightarrow>
     (case email_rule env field value of
        Some m \<Rightarrow> Inr (Some m)
      | None \<Rightarrow>
     (case minLength_rule env field value of
        Inl e \<Rightarrow> Inl e
      | Inr (Some m) \<Rightarrow> Inr (Some m)
      | Inr None \<Rightarrow>
     (case maxLength_rule env field value of
        Inl e \<Rightarrow> Inl e
      | Inr (Some m) \<Rightarrow> Inr (Some m)
      | Inr None \<Rightarrow>
     (case min_rule env field value of
        Some m \<Rightarrow> Inr (Some m)
      | None \<Rightarrow>
     (case max_rule env field value of
        Some m \<Rightarrow> Inr (Some m)
      | None \<Rightarrow> pattern_rule env field value))))))"

subsection \<open>Objects\<close>

text \<open>
  An object used as a dictionary (the schema, the existing record, the value store, the
  error store, the payload) is the list of its own enumerable properties, in the order
  in which \<^verbatim>\<open>Object.entries\<close> enumerates them; for the schema this is the
  declaration order of the fields. A property that is added goes to the end, a property
  that is assigned keeps its place. (JavaScript enumerates the names that are array
  indices first, in numeric order; the model does not treat them apart.)

  All these objects are created by object literals, so they inherit from
  \<^verbatim>\<open>Object.prototype\<close>: the operator \<^verbatim>\<open>in\<close> and a property read also find the
  names defined there, and an assignment to \<^verbatim>\<open>__proto__\<close> runs the inherited setter
  (which ignores a primitive value) unless the object has an own property of that name.
\<close>

type_synonym 'v obj = "(string \<times> 'v) list"

definition ObjectPrototype_names :: "string list" where
  "ObjectPrototype_names =
     [''constructor'', ''hasOwnProperty'', ''isPrototypeOf'', ''propertyIsEnumerable'',
      ''toLocaleString'', ''toString'', ''valueOf'', ''__proto__'', ''__defineGetter__'',
      ''__defineSetter__'', ''__lookupGetter__'', ''__lookupSetter__'']"

definition has_own :: "'v obj \<Rightarrow> string \<Rightarrow> bool" where
  "has_own obj key = (key \<in> fst ` set obj)"

text \<open>\<^verbatim>\<open>key in obj\<close>\<close>

definition has_property :: "'v obj \<Rightarrow> string \<Rightarrow> bool" where
  "has_property obj key = (has_own obj key \<or> key \<in> set ObjectPrototype_names)"

text \<open>\<^verbatim>\<open>obj[key] = v\<close>, for a primitive value \<open>v\<close>\<close>

definition set_prop :: "string \<Rightarrow> 'v \<Rightarrow> 'v obj \<Rightarrow> 'v obj" where
  "set_prop key v obj =
     (if key = ''__proto__'' \<and> \<not> has_own obj key then obj else AList.update key v obj)"

text \<open>
  \<^verbatim>\<open>this._values[fieldName]\<close>: the own property, \<^verbatim>\<open>undefined\<close> when there is
  none. (For a name of \<^verbatim>\<open>Object.prototype\<close> that is not an own property the read
  gives a function, which is not a value of the model; the statements about whole-form
  validation below are for schemas without such field names, see \<open>wf_schema\<close>.)
\<close>

definition get_value :: "jsval obj \<Rightarrow> string \<Rightarrow> jsval" where
  "get_value obj key = (case map_of obj key of None \<Rightarrow> JUndefined | Some v \<Rightarrow> v)"

text \<open>
  \<^verbatim>\<open>this.schema[key]\<close>: the own field; for an inherited name an object that has none
  of the properties of a \<^verbatim>\<open>FieldSchema\<close> (every read of \<^verbatim>\<open>required\<close>,
  \<^verbatim>\<open>type\<close>, \<^verbatim>\<open>min\<close>, ... gives \<^verbatim>\<open>undefined\<close>); otherwise \<^verbatim>\<open>undefined\<close>,
  here \<open>None\<close>, on which the next property read throws a TypeError.
\<close>

definition inherited_field :: FieldSchema where
  "inherited_field =
     \<lparr>type_f = [], required = False, default_f = JUndefined, min_f = None, max_f = None,
      minLength = None, maxLength = None, pattern = None, group = None\<rparr>"

definition read_field :: "FieldSchema obj \<Rightarrow> string \<Rightarrow> FieldSchema option" where
  "read_field sch key =
     (case map_of sch key of
        Some field \<Rightarrow> Some field
      | None \<Rightarrow> if key \<in> set ObjectPrototype_names then Some inherited_field else None)"

text \<open>
  The schemas that the statements about whole forms are for: the field names are
  distinct, as the keys of an object are, and none is a name of
  \<^verbatim>\<open>Object.prototype\<close>.
\<close>

definition wf_schema :: "FieldSchema obj \<Rightarrow> bool" where
  "wf_schema sch =
     (distinct (map fst sch) \<and> list_all (\<lambda>key. key \<notin> set ObjectPrototype_names) (map fst sch))"

subsection \<open>The state of a form\<close>

text \<open>
  The reactive properties of the element that the engine reads or writes (the labels and
  \<^verbatim>\<open>disabled\<close> are read by the rendering only). \<open>database_p\<close> tells whether
  \<^verbatim>\<open>this._database\<close> holds a handle. The private properties \<^verbatim>\<open>_values\<close>,
  \<^verbatim>\<open>_errors\<close>, ... carry the suffix \<open>_p\<close>.
\<close>

record form =
  path :: string
  schema :: "FieldSchema obj"
  resetOnSubmit :: bool
  showSuccess :: bool
  data :: "jsval obj option"
  dataKey :: string
  database_p :: bool
  loading_p :: bool
  errors_p :: "string obj"
  values_p :: "jsval obj"
  showSuccessMessage_p :: bool
  globalError_p :: string

text \<open>
  What the element does to the outside: the events it dispatches, the timer it starts,
  and the writes it asks of the database (\<^verbatim>\<open>update(ref(db, path/key), data)\<close>, and
  \<^verbatim>\<open>set(push(ref(db, path)), data)\<close> with the key of the pushed reference).
\<close>

datatype effect =
    Dispatch_form_submit "jsval obj" string string
  | Dispatch_form_error string
  | Dispatch_form_reset
  | SetTimeout nat
  | Firebase_update string "jsval obj"
  | Firebase_set string string "jsval obj"

text \<open>
  What the outside answers during one submission: the two readings of \<^verbatim>\<open>Date.now()\<close>,
  whether the dynamic import of the database module and the write are rejected (with
  which message), and the key of the reference that \<^verbatim>\<open>push\<close> creates.
\<close>

record world =
  now_updatedAt :: nat
  now_createdAt :: nat
  import_error :: "string option"
  write_error :: "string option"
  push_key :: string

subsection \<open>The value store\<close>

definition default_value :: "FieldSchema \<Rightarrow> jsval" where
  "default_value field =
     (if default_f field \<noteq> JUndefined then default_f field
      else if type_f field = ''checkbox'' then JBool False
      else JStr [])"

definition initializeValues :: "form \<Rightarrow> form" where
  "initializeValues s =
     (let values0 =
            foldl (\<lambda>values (key, field). set_prop key (default_value field) values)
              [] (schema s);
          values1 =
            (case data s of
               None \<Rightarrow> values0
             | Some d \<Rightarrow>
                 foldl (\<lambda>values (key, value).
                          if has_property (schema s) key then set_prop key value values
                          else values)
                   values0 d)
      in s\<lparr>values_p := values1, errors_p := []\<rparr>)"

text \<open>The target of an input event: \<^verbatim>\<open>e.target.value\<close> and \<^verbatim>\<open>e.target.checked\<close>.\<close>

record event_target =
  target_value :: string
  target_checked :: bool

text \<open>The value that \<^verbatim>\<open>_handleInput\<close> extracts from the event.\<close>

definition extract_value :: "js_engine \<Rightarrow> FieldSchema \<Rightarrow> event_target \<Rightarrow> jsval" where
  "extract_value env field target =
     (if type_f field = ''checkbox'' then JBool (target_checked target)
      else if type_f field = ''number'' \<or> type_f field = ''range''
        then (if target_value target = [] then JStr []
              else JNum (StringToNumber env (target_value target)))
      else JStr (target_value target))"

subsection \<open>Validation in the state\<close>

text \<open>
  \<^verbatim>\<open>_validateField\<close>: the error store is copied, the entry of the field is deleted,
  the rules are evaluated, and the new store is assigned at the end, so nothing is
  assigned when a rule throws.
\<close>

definition validateField :: "js_engine \<Rightarrow> form \<Rightarrow> string \<Rightarrow> jsval \<Rightarrow> js_error + form" where
  "validateField env s fieldName value =
     (case read_field (schema s) fieldName of
        None \<Rightarrow> Inl TypeError
      | Some field \<Rightarrow>
          (let errors = AList.delete fieldName (errors_p s)
           in case validateField_rules env field value of
                Inl e \<Rightarrow> Inl e
              | Inr None \<Rightarrow> Inr (s\<lparr>errors_p := errors\<rparr>)
              | Inr (Some m) \<Rightarrow> Inr (s\<lparr>errors_p := set_prop fieldName m errors\<rparr>)))"

text \<open>
  \<^verbatim>\<open>_handleInput\<close>: the value store is replaced by a copy with the extracted value
  before the field is validated, so it keeps the value when the validation throws.
\<close>

definition handleInput ::
    "js_engine \<Rightarrow> form \<Rightarrow> event_target \<Rightarrow> string \<Rightarrow> js_error option \<times> form" where
  "handleInput env s target fieldName =
     (case read_field (schema s) fieldName of
        None \<Rightarrow> (Some TypeError, s)
      | Some field \<Rightarrow>
          (let value = extract_value env field target;
               s' = s\<lparr>values_p := AList.update fieldName value (values_p s)\<rparr>
           in case validateField env s' fieldName value of
                Inl e \<Rightarrow> (Some e, s')
              | Inr s'' \<Rightarrow> (None, s'')))"

text \<open>
  The loop of \<^verbatim>\<open>_validateForm\<close> over the field names of the schema. When a field
  throws, the loop stops with the state reached so far.
\<close>

fun validateFields :: "js_engine \<Rightarrow> form \<Rightarrow> string list \<Rightarrow> js_error option \<times> form" where
  "validateFields env s [] = (None, s)"
| "validateFields env s (fieldName # rest) =
     (case validateField env s fieldName (get_value (values_p s) fieldName) of
        Inl e \<Rightarrow> (Some e, s)
      | Inr s' \<Rightarrow> validateFields env s' rest)"

definition validateForm :: "js_engine \<Rightarrow> form \<Rightarrow> (js_error + bool) \<times> form" where
  "validateForm env s =
     (case validateFields env s (map fst (schema s)) of
        (Some e, s') \<Rightarrow> (Inl e, s')
      | (None, s') \<Rightarrow> (Inr (errors_p s' = []), s'))"

subsection \<open>Submission and reset\<close>

definition handleReset :: "form \<Rightarrow> form \<times> effect list" where
  "handleReset s =
     ((initializeValues s)\<lparr>showSuccessMessage_p := False, globalError_p := []\<rparr>,
      [Dispatch_form_reset])"

text \<open>
  The loop that prepares \<^verbatim>\<open>submitData\<close>: \<^verbatim>\<open>field.required\<close> is read only when
  the value is the empty string.
\<close>

fun prepare_submitData ::
    "FieldSchema obj \<Rightarrow> jsval obj \<Rightarrow> jsval obj \<Rightarrow> js_error + jsval obj" where
  "prepare_submitData sch submitData [] = Inr submitData"
| "prepare_submitData sch submitData ((key, value) # rest) =
     (if value \<noteq> JStr [] then prepare_submitData sch (set_prop key value submitData) rest
      else (case read_field sch key of
              None \<Rightarrow> Inl TypeError
            | Some field \<Rightarrow>
                if required field
                then prepare_submitData sch (set_prop key value submitData) rest
                else prepare_submitData sch submitData rest))"

text \<open>
  The block \<^verbatim>\<open>if (this._database && this.path) { ... }\<close>: the effects, and either the
  error that it throws or the payload and the state after it.
\<close>

definition persist ::
    "world \<Rightarrow> form \<Rightarrow> jsval obj \<Rightarrow> effect list \<times> (js_error + jsval obj \<times> form)" where
  "persist w s submitData =
     (if database_p s \<and> path s \<noteq> [] then
        (case import_error w of
           Some m \<Rightarrow> ([], Inl (Rejection m))
         | None \<Rightarrow>
             if dataKey s \<noteq> [] then
               (let fx = [Firebase_update (path s @ ''/'' @ dataKey s) submitData]
                in case write_error w of
                     Some m \<Rightarrow> (fx, Inl (Rejection m))
                   | None \<Rightarrow> (fx, Inr (submitData, s)))
             else
               (let submitData' =
                      AList.update ''_createdAt'' (JNum (Fin (of_nat (now_createdAt w))))
                        submitData;
                    fx = [Firebase_set (path s) (push_key w) submitData']
                in case write_error w of
                     Some m \<Rightarrow> (fx, Inl (Rejection m))
                   | None \<Rightarrow> (fx, Inr (submitData', s\<lparr>dataKey := push_key w\<rparr>))))
      else ([], Inr (submitData, s)))"

text \<open>\<^verbatim>\<open>error.message\<close>\<close>

definition error_message :: "js_engine \<Rightarrow> js_error \<Rightarrow> string" where
  "error_message env e = (case e of Rejection m \<Rightarrow> m | _ \<Rightarrow> Error_message env e)"

text \<open>
  How a call of \<^verbatim>\<open>_handleSubmit\<close> ends: \<^verbatim>\<open>_validateForm\<close> throws (outside the
  \<^verbatim>\<open>try\<close>), it returns \<^verbatim>\<open>false\<close> and the handler returns, the \<^verbatim>\<open>try\<close> block
  completes, or the \<^verbatim>\<open>catch\<close> block runs.
\<close>

datatype outcome = Uncaught js_error | Returned_invalid | Submitted | Caught js_error

definition handleSubmit ::
    "js_engine \<Rightarrow> world \<Rightarrow> form \<Rightarrow> outcome \<times> form \<times> effect list" where
  "handleSubmit env w s =
     (case validateForm env s of
        (Inl e, s1) \<Rightarrow> (Uncaught e, s1, [])
      | (Inr False, s1) \<Rightarrow> (Returned_invalid, s1, [])
      | (Inr True, s1) \<Rightarrow>
          (let s2 = s1\<lparr>loading_p := True, globalError_p := [], showSuccessMessage_p := False\<rparr>;
               catch = (\<lambda>e s' fx.
                 (Caught e,
                  s'\<lparr>globalError_p := error_message env e, loading_p := False\<rparr>,
                  fx @ [Dispatch_form_error (error_message env e)]))
           in case prepare_submitData (schema s2) [] (values_p s2) of
                Inl e \<Rightarrow> catch e s2 []
              | Inr submitData0 \<Rightarrow>
                  (let submitData =
                         AList.update ''_updatedAt'' (JNum (Fin (of_nat (now_updatedAt w))))
                           submitData0
                   in case persist w s2 submitData of
                        (fx, Inl e) \<Rightarrow> catch e s2 fx
                      | (fx, Inr (submitData', s3)) \<Rightarrow>
                          (let fx1 = fx @ [Dispatch_form_submit submitData' (dataKey s3) (path s3)];
                               (s4, fx2) =
                                 (if showSuccess s3
                                  then (s3\<lparr>showSuccessMessage_p := True\<rparr>, fx1 @ [SetTimeout 3000])
                                  else (s3, fx1));
                               (s5, fx3) =
                                 (if resetOnSubmit s4
                                  then (case handleReset s4 of (s', fx') \<Rightarrow> (s', fx2 @ fx'))
                                  else (s4, fx2))
                           in (Submitted, s5\<lparr>loading_p := False\<rparr>, fx3)))))"

text \<open>The two outcome events among the effects.\<close>

fun is_form_submit :: "effect \<Rightarrow> bool" where
  "is_form_submit (Dispatch_form_submit d k p) = True"
| "is_form_submit e = False"

fun is_form_error :: "effect \<Rightarrow> bool" where
  "is_form_error (Dispatch_form_error m) = True"
| "is_form_error e = False"




definition loop_completes :: "FieldSchema obj \<Rightarrow> jsval obj \<Rightarrow> bool" where
  "loop_completes sch store =
     list_all (\<lambda>(key, v). v \<noteq> JStr [] \<or> read_field sch key \<noteq> None) store"

subsection \<open>The group partitioner\<close>

text \<open>\<^verbatim>\<open>field.group || ''\<close>\<close>

definition group_name :: "FieldSchema \<Rightarrow> string" where
  "group_name field = (case group field of None \<Rightarrow> [] | Some g \<Rightarrow> g)"

text \<open>
  The \<^verbatim>\<open>Map\<close> of \<^verbatim>\<open>_groupFields\<close> is the list of its entries in insertion order.
  One step of the loop: create the bucket when the map does not have it, then push the
  entry on the bucket.
\<close>

definition groupFields_step ::
    "(string \<times> (string \<times> FieldSchema) list) list \<Rightarrow> string \<times> FieldSchema \<Rightarrow>
     (string \<times> (string \<times> FieldSchema) list) list" where
  "groupFields_step groups entry =
     (let g = group_name (snd entry);
          groups1 = (if g \<in> fst ` set groups then groups else AList.update g [] groups)
      in case map_of groups1 g of
           None \<Rightarrow> groups1
         | Some bucket \<Rightarrow> AList.update g (bucket @ [entry]) groups1)"

definition groupFields ::
    "FieldSchema obj \<Rightarrow> (string \<times> (string \<times> FieldSchema) list) list" where
  "groupFields sch = foldl groupFields_step [([], [])] sch"

text \<open>The buckets flattened back, in bucket order.\<close>

definition flatten_groups ::
    "(string \<times> (string \<times> FieldSchema) list) list \<Rightarrow> (string \<times> FieldSchema) list" where
  "flatten_groups groups = concat (map snd groups)"

subsection \<open>The constraints as the specification words them\<close>

text \<open>
  The constraints 2 to 7 of the specification of the validation engine, each with the
  guard that the specification gives it: the email shape when the type is
  \<^verbatim>\<open>email\<close> and the value is non-empty, the two length bounds when they are set,
  the two value bounds when they are defined, the pattern when it is set and the value
  is non-empty. This definition is written from the specification, to be compared with
  \<open>validateField_rules\<close>.
\<close>

definition spec_other_constraints :: "js_engine \<Rightarrow> FieldSchema \<Rightarrow> jsval \<Rightarrow> bool" where
  "spec_other_constraints env f v =
     ((type_f f \<noteq> ''email'' \<or> is_empty v \<or> isValidEmail (ToString env v)) \<and>
      (case minLength f of
         None \<Rightarrow> True
       | Some n \<Rightarrow> (case get_length v of Inl e \<Rightarrow> False | Inr len \<Rightarrow> \<not> js_lt env len n)) \<and>
      (case maxLength f of
         None \<Rightarrow> True
       | Some n \<Rightarrow> (case get_length v of Inl e \<Rightarrow> False | Inr len \<Rightarrow> \<not> js_gt env len n)) \<and>
      (case min_f f of None \<Rightarrow> True | Some n \<Rightarrow> \<not> js_lt env v n) \<and>
      (case max_f f of None \<Rightarrow> True | Some n \<Rightarrow> \<not> js_gt env v n) \<and>
      (case pattern f of
         None \<Rightarrow> True
       | Some p \<Rightarrow>
           is_empty v \<or>
           (case RegExp env p of None \<Rightarrow> False | Some test \<Rightarrow> test (ToString env v))))"

subsection \<open>The partition described by its result\<close>

text \<open>
  The result of the partition written down without the loop, to be compared with
  \<open>groupFields\<close>. The names of the buckets are the group names in the order in which
  they are first seen, the unnamed group being seen before every field (the
  \<^verbatim>\<open>Map\<close> starts with its bucket); the bucket of a name holds the fields of that
  group, in their declaration order.
\<close>

fun first_seen :: "'a list \<Rightarrow> 'a list" where
  "first_seen [] = []"
| "first_seen (x # xs) = x # filter (\<lambda>y. y \<noteq> x) (first_seen xs)"

definition spec_groupFields ::
    "FieldSchema obj \<Rightarrow> (string \<times> (string \<times> FieldSchema) list) list" where
  "spec_groupFields sch =
     map (\<lambda>g. (g, filter (\<lambda>entry. group_name (snd entry) = g) sch))
       (first_seen ([] # map (\<lambda>entry. group_name (snd entry)) sch))"

text \<open>
  A schema declares its fields bucket by bucket when the fields without a group come
  first and the fields of each group stand next to each other: in the list of the group
  names of the fields, after the unnamed group, the runs of equal names have different
  names.
\<close>

definition declared_by_bucket :: "FieldSchema obj \<Rightarrow> bool" where
  "declared_by_bucket sch =
     distinct (remdups_adj ([] # map (\<lambda>entry. group_name (snd entry)) sch))"

subsection \<open>Concrete inputs\<close>

text \<open>
  An engine for the closed examples below. It renders the natural numbers in decimal and
  reads the strings of decimal digits; the examples give it no other number, no other
  numeric string and no pattern.
\<close>

fun show_nat :: "nat \<Rightarrow> string" where
  "show_nat n =
     (if n < 10 then [''0123456789'' ! n]
      else show_nat (n div 10) @ [''0123456789'' ! (n mod 10)])"

definition sample_NumberToString :: "jsnum \<Rightarrow> string" where
  "sample_NumberToString n =
     (case n of
        NaN \<Rightarrow> ''NaN''
      | PosInf \<Rightarrow> ''Infinity''
      | NegInf \<Rightarrow> ''-Infinity''
      | Fin r \<Rightarrow> (if r < 0 then ''-'' @ show_nat (nat \<lfloor>- r\<rfloor>) else show_nat (nat \<lfloor>r\<rfloor>)))"

definition sample_StringToNumber :: "string \<Rightarrow> jsnum" where
  "sample_StringToNumber s =
     (if list_all (\<lambda>c. c \<in> set ''0123456789'') s
      then Fin (of_nat (foldl (\<lambda>a c. 10 * a + (of_char c - 48)) 0 s))
      else NaN)"

definition sample_engine :: js_engine where
  "sample_engine =
     \<lparr>StringToNumber = sample_StringToNumber,
      NumberToString = sample_NumberToString,
      RegExp = (\<lambda>p. None),
      Error_message = (\<lambda>e. ''TypeError'')\<rparr>"

definition sample_world :: world where
  "sample_world =
     \<lparr>now_updatedAt = 1000, now_createdAt = 1001, import_error = None, write_error = None,
      push_key = ''-Nabc''\<rparr>"

text \<open>A field with a type and nothing else, and the state that the constructor sets up.\<close>

definition text_field :: FieldSchema where
  "text_field =
     \<lparr>type_f = ''text'', required = False, default_f = JUndefined, min_f = None, max_f = None,
      minLength = None, maxLength = None, pattern = None, group = None\<rparr>"

definition new_form :: form where
  "new_form =
     \<lparr>path = [], schema = [], resetOnSubmit = False, showSuccess = True, data = None,
      dataKey = [], database_p = False, loading_p = False, errors_p = [], values_p = [],
      showSuccessMessage_p = False, globalError_p = []\<rparr>"

text \<open>
  \<^verbatim>\<open>{ bio: { type: 'textarea', maxLength: 10 } }\<close> with the existing record
  \<^verbatim>\<open>{ bio: null }\<close>.
\<close>

definition bio_field :: FieldSchema where
  "bio_field = text_field\<lparr>type_f := ''textarea'', maxLength := Some (Fin 10)\<rparr>"

definition bio_form :: form where
  "bio_form = new_form\<lparr>schema := [(''bio'', bio_field)], data := Some [(''bio'', JNull)]\<rparr>"

text \<open>
  \<^verbatim>\<open>{ email: { type: 'email', required: true, minLength: 3, maxLength: 20 } }\<close>
\<close>

definition email_field :: FieldSchema where
  "email_field =
     text_field\<lparr>type_f := ''email'', required := True, minLength := Some (Fin 3),
       maxLength := Some (Fin 20)\<rparr>"

text \<open>\<^verbatim>\<open>{ type: 'number', min: 1 }\<close> and \<^verbatim>\<open>{ type: 'number', min: 1, minLength: 1 }\<close>\<close>

definition age_field :: FieldSchema where
  "age_field = text_field\<lparr>type_f := ''number'', min_f := Some (Fin 1)\<rparr>"

definition code_field :: FieldSchema where
  "code_field = age_field\<lparr>minLength := Some (Fin 1)\<rparr>"

text \<open>
  \<^verbatim>\<open>{ type: 'checkbox', required: true }\<close> and
  \<^verbatim>\<open>{ type: 'checkbox', required: true, min: 1 }\<close>
\<close>

definition terms_field :: FieldSchema where
  "terms_field = text_field\<lparr>type_f := ''checkbox'', required := True\<rparr>"

definition count_field :: FieldSchema where
  "count_field = terms_field\<lparr>min_f := Some (Fin 1)\<rparr>"

text \<open>
  \<^verbatim>\<open>{ name: { type: 'text' } }\<close> with the existing record
  \<^verbatim>\<open>{ name: 'Ada', constructor: 'Ferrari' }\<close>, and the same form after the user
  has typed another name.
\<close>

definition driver_form :: form where
  "driver_form =
     new_form\<lparr>schema := [(''name'', text_field)],
       data := Some [(''name'', JStr ''Ada''), (''constructor'', JStr ''Ferrari'')]\<rparr>"

definition edited_form :: form where
  "edited_form =
     driver_form\<lparr>values_p := [(''name'', JStr ''Grace'')],
       errors_p := [(''name'', ''Invalid format'')]\<rparr>"

text \<open>
  \<^verbatim>\<open>{ title: { type: 'text', group: 'Meta' }, id: { type: 'text' } }\<close>
\<close>

definition meta_schema :: "FieldSchema obj" where
  "meta_schema = [(''title'', text_field\<lparr>group := Some ''Meta''\<rparr>), (''id'', text_field)]"

text \<open>
  \<^verbatim>\<open>{ street: { group: 'Address' }, phone: { group: 'Contact' }, name: {},
  city: { group: 'Address' } }\<close>, every field of type \<^verbatim>\<open>text\<close>
\<close>

definition mixed_schema :: "FieldSchema obj" where
  "mixed_schema =
     [(''street'', text_field\<lparr>group := Some ''Address''\<rparr>),
      (''phone'', text_field\<lparr>group := Some ''Contact''\<rparr>),
      (''name'', text_field),
      (''city'', text_field\<lparr>group := Some ''Address''\<rparr>)]"

text \<open>The same fields declared bucket by bucket.\<close>

definition tidy_schema :: "FieldSchema obj" where
  "tidy_schema =
     [(''name'', text_field),
      (''street'', text_field\<lparr>group := Some ''Address''\<rparr>),
      (''city'', text_field\<lparr>group := Some ''Address''\<rparr>),
      (''phone'', text_field\<lparr>group := Some ''Contact''\<rparr>)]"

text \<open>
  \<^verbatim>\<open>{ name: { type: 'text', required: true }, email: { type: 'email', ... } }\<close> with
  the name left empty.
\<close>

definition name_field :: FieldSchema where
  "name_field = text_field\<lparr>required := True\<rparr>"

definition signup_form :: form where
  "signup_form =
     new_form\<lparr>schema := [(''name'', name_field), (''email'', email_field)],
       values_p := [(''name'', JStr []), (''email'', JStr ''a@b.co'')]\<rparr>"

text \<open>
  \<^verbatim>\<open>{ name: { type: 'text', required: true } }\<close> filled in, without a database and
  with a database and the path \<^verbatim>\<open>/users\<close>; and a world in which the write is
  rejected.
\<close>

definition ada_form :: form where
  "ada_form =
     new_form\<lparr>schema := [(''name'', name_field)], values_p := [(''name'', JStr ''Ada'')]\<rparr>"

definition users_form :: form where
  "users_form = ada_form\<lparr>database_p := True, path := ''/users''\<rparr>"

definition failing_world :: world where
  "failing_world = sample_world\<lparr>write_error := Some ''PERMISSION_DENIED''\<rparr>"

text \<open>
  The form \<open>ada_form\<close> with a value store that holds, beside the name, the empty value
  of a key \<^verbatim>\<open>nick\<close> that the schema does not have; and the form \<open>users_form\<close>
  with a second field named \<^verbatim>\<open>_createdAt\<close>, opened on the existing record
  \<^verbatim>\<open>-Nold\<close>.
\<close>

definition stale_form :: form where
  "stale_form = ada_form\<lparr>values_p := [(''name'', JStr ''Ada''), (''nick'', JStr [])]\<rparr>"

definition stamped_form :: form where
  "stamped_form =
     users_form\<lparr>schema := [(''name'', name_field), (''_createdAt'', text_field)],
       values_p := [(''name'', JStr ''Ada''), (''_createdAt'', JStr ''2020'')],
       dataKey := ''-Nold''\<rparr>"

text \<open>\<^verbatim>\<open>{ terms: { type: 'checkbox', required: true } }\<close> left unchecked\<close>

definition terms_form :: form where
  "terms_form =
     new_form\<lparr>schema := [(''terms'', terms_field)], values_p := [(''terms'', JBool False)]\<rparr>"

section \<open>Properties\<close>

subsection \<open>JavaScript values and objects\<close>

lemma show_nat_digit: "n < 10 \<Longrightarrow> show_nat n = [''0123456789'' ! n]"
  by simp

declare show_nat.simps [simp del]

lemma sample_NumberToString_1 [simp]: "sample_NumberToString (Fin 1) = ''1''"
  by (simp add: sample_NumberToString_def show_nat_digit)

lemma num_lt_NaN [simp]: "\<not> num_lt x NaN"
  by (cases x) simp_all

lemma proto_name: "''__proto__'' \<in> set ObjectPrototype_names"
  by (simp add: ObjectPrototype_names_def)

lemma key_in_obj: "k \<in> fst ` set obj \<longleftrightarrow> map_of obj k \<noteq> None"
  by (simp add: map_of_eq_None_iff)

lemma update_append_new: "k \<notin> fst ` set al \<Longrightarrow> AList.update k v al = al @ [(k, v)]"
  by (induction al) auto

lemma delete_filter: "AList.delete k al = filter (\<lambda>p. fst p \<noteq> k) al"
  by (induction al) auto

lemma map_of_set_prop_other: "k \<noteq> key \<Longrightarrow> map_of (set_prop key v acc) k = map_of acc k"
  by (simp add: set_prop_def update_conv')

lemma map_of_set_prop_same: "k \<noteq> ''__proto__'' \<Longrightarrow> map_of (set_prop k v acc) k = Some v"
  by (simp add: set_prop_def update_conv')

subsection \<open>The validation rules\<close>

text \<open>The two examples of the email shape that the specification gives.\<close>

lemma isValidEmail_examples: "isValidEmail ''a@b.co'' \<and> \<not> isValidEmail ''not-an-email''"
  by (simp add: isValidEmail_def email_char_def is_space_def)

lemma required_rule_fires:
  "required f \<Longrightarrow> is_empty v \<Longrightarrow>
   validateField_rules env f v = Inr (Some ''This field is required'')"
  by (simp add: validateField_rules_def required_rule_def)

text \<open>
  On a string, whatever the field, the rules return (a message or none) as soon as the
  pattern of the field, if it has one, compiles: only \<^verbatim>\<open>null\<close>, \<^verbatim>\<open>undefined\<close> and
  a malformed pattern make them throw.
\<close>

lemma validateField_rules_string_returns:
  assumes "case pattern f of None \<Rightarrow> True | Some p \<Rightarrow> RegExp env p \<noteq> None"
  shows "\<exists>r. validateField_rules env f (JStr s) = Inr r"
proof -
  have 1: "\<exists>r. minLength_rule env f (JStr s) = Inr r"
    by (simp add: minLength_rule_def split: option.splits)
  have 2: "\<exists>r. maxLength_rule env f (JStr s) = Inr r"
    by (simp add: maxLength_rule_def split: option.splits)
  have 3: "\<exists>r. pattern_rule env f (JStr s) = Inr r"
    using assms by (auto simp: pattern_rule_def split: option.splits)
  from 1 2 3 show ?thesis
    by (auto simp: validateField_rules_def split: option.splits sum.splits)
qed

text \<open>
  C1. The rules are evaluated in the order of the source, and the first one that fires
  gives the message. But the two length rules read \<^verbatim>\<open>value.length\<close> without a guard:
  on \<^verbatim>\<open>null\<close> (and \<^verbatim>\<open>undefined\<close>), for a field that is not required and has a
  length bound, the validation throws a TypeError and gives no result at all. Such a
  value reaches the store through the existing record or a default; submitting the form
  then ends in an uncaught TypeError.
\<close>

theorem validateField_throws_on_null:
  "validateField_rules env bio_field JNull = Inl TypeError \<and>
   values_p (initializeValues bio_form) = [(''bio'', JNull)] \<and>
   fst (handleSubmit env w (initializeValues bio_form)) = Uncaught TypeError"
proof -
  have r: "validateField_rules env bio_field JNull = Inl TypeError"
    by (simp add: validateField_rules_def required_rule_def email_rule_def
        minLength_rule_def maxLength_rule_def bio_field_def text_field_def)
  have i: "initializeValues bio_form =
      bio_form\<lparr>values_p := [(''bio'', JNull)], errors_p := []\<rparr>"
    by (simp add: initializeValues_def bio_form_def new_form_def set_prop_def has_own_def
        has_property_def default_value_def bio_field_def text_field_def)
  have "validateForm env (initializeValues bio_form) = (Inl TypeError, initializeValues bio_form)"
    unfolding i using r
    by (simp add: validateForm_def validateField_def read_field_def get_value_def
        bio_form_def new_form_def)
  then show ?thesis using r i by (simp add: handleSubmit_def)
qed

theorem validateField_throws_on_null_witness:
  "validateField_rules sample_engine bio_field JNull = Inl TypeError \<and>
   fst (handleSubmit sample_engine sample_world (initializeValues bio_form)) =
     Uncaught TypeError"
  using validateField_throws_on_null [of sample_engine sample_world] by simp

text \<open>
  C5. For a required field, the empty string, \<^verbatim>\<open>null\<close> and \<^verbatim>\<open>undefined\<close> give
  the message "This field is required"; a value that is none of these and satisfies the
  other constraints of the field, as the specification words them, gives no message.
\<close>

theorem required_field_validation:
  assumes "required f"
  shows "(is_empty v \<longrightarrow>
            validateField_rules env f v = Inr (Some ''This field is required'')) \<and>
         (\<not> is_empty v \<and> spec_other_constraints env f v \<longrightarrow>
            validateField_rules env f v = Inr None)"
proof (intro conjI impI)
  assume "is_empty v"
  with assms show "validateField_rules env f v = Inr (Some ''This field is required'')"
    by (simp add: validateField_rules_def required_rule_def)
next
  assume a: "\<not> is_empty v \<and> spec_other_constraints env f v"
  then have ne: "\<not> is_empty v" and sp: "spec_other_constraints env f v" by simp_all
  have 1: "required_rule f v = None" using ne by (simp add: required_rule_def)
  have 2: "email_rule env f v = None"
    using ne sp by (auto simp: email_rule_def spec_other_constraints_def)
  have 3: "minLength_rule env f v = Inr None"
    using sp by (auto simp: minLength_rule_def spec_other_constraints_def
        split: option.splits sum.splits)
  have 4: "maxLength_rule env f v = Inr None"
    using sp by (auto simp: maxLength_rule_def spec_other_constraints_def
        split: option.splits sum.splits)
  have 5: "min_rule env f v = None"
    using sp by (auto simp: min_rule_def spec_other_constraints_def split: option.splits)
  have 6: "max_rule env f v = None"
    using sp by (auto simp: max_rule_def spec_other_constraints_def split: option.splits)
  have 7: "pattern_rule env f v = Inr None"
    using ne sp by (auto simp: pattern_rule_def spec_other_constraints_def
        split: option.splits)
  show "validateField_rules env f v = Inr None"
    by (simp add: validateField_rules_def 1 2 3 4 5 6 7)
qed

theorem required_field_validation_witness:
  "required email_field \<and>
   is_empty (JStr []) \<and>
   validateField_rules sample_engine email_field (JStr []) =
     Inr (Some ''This field is required'') \<and>
   \<not> is_empty (JStr ''a@b.co'') \<and>
   spec_other_constraints sample_engine email_field (JStr ''a@b.co'') \<and>
   validateField_rules sample_engine email_field (JStr ''a@b.co'') = Inr None"
proof -
  have r: "required email_field" by (simp add: email_field_def text_field_def)
  have e: "is_empty (JStr [])" by (simp add: is_empty_def)
  have n: "\<not> is_empty (JStr ''a@b.co'')" by (simp add: is_empty_def)
  have s: "spec_other_constraints sample_engine email_field (JStr ''a@b.co'')"
    by (simp add: spec_other_constraints_def email_field_def text_field_def isValidEmail_def
        email_char_def is_space_def js_lt_def js_gt_def)
  show ?thesis
    using required_field_validation [OF r, of "JStr []" sample_engine]
      required_field_validation [OF r, of "JStr ''a@b.co''" sample_engine] r e n s
    by simp
qed

subsection \<open>Validation of one field in the state\<close>

lemma validateField_frame:
  "validateField env s k v = Inr s' \<Longrightarrow> s' = s\<lparr>errors_p := errors_p s'\<rparr>"
  by (auto simp: validateField_def Let_def split: option.splits sum.splits)

lemma read_field_own: "map_of sch k = Some f \<Longrightarrow> read_field sch k = Some f"
  by (simp add: read_field_def)

lemma validateField_pass:
  assumes "map_of (schema s) k = Some f" and "validateField_rules env f v = Inr None"
  shows "validateField env s k v = Inr (s\<lparr>errors_p := filter (\<lambda>p. fst p \<noteq> k) (errors_p s)\<rparr>)"
  using assms by (simp add: validateField_def read_field_own delete_filter)

lemma validateField_message:
  assumes "map_of (schema s) k = Some f" and "validateField_rules env f v = Inr (Some m)"
    and "k \<noteq> ''__proto__''"
  shows "validateField env s k v =
           Inr (s\<lparr>errors_p := filter (\<lambda>p. fst p \<noteq> k) (errors_p s) @ [(k, m)]\<rparr>)"
proof -
  have "k \<notin> fst ` set (AList.delete k (errors_p s))" by (rule delete_notin_dom)
  then have "set_prop k m (AList.delete k (errors_p s)) = AList.delete k (errors_p s) @ [(k, m)]"
    using assms(3) by (simp add: set_prop_def update_append_new)
  with assms(1,2) show ?thesis
    by (simp add: validateField_def read_field_own delete_filter)
qed

lemma validateField_other:
  assumes "validateField env s k' v = Inr s'" and "k \<noteq> k'"
  shows "map_of (errors_p s') k = map_of (errors_p s) k"
  using assms
  by (auto simp: validateField_def Let_def map_of_set_prop_other
      split: option.splits sum.splits)

text \<open>
  C9, as stated: every field that is not required and has a bound \<^verbatim>\<open>min > 0\<close>
  reports "Minimum value is N" on the empty string. The minimum-length rule comes
  before the minimum-value rule, so a field that also has \<^verbatim>\<open>minLength: 1\<close> reports the
  length message instead.
\<close>

theorem blank_optional_min_bound_counterexample:
  "\<not> required code_field \<and> min_f code_field = Some (Fin 1) \<and> num_lt (Fin 0) (Fin 1) \<and>
   validateField_rules sample_engine code_field (JStr []) =
     Inr (Some ''Minimum 1 characters required'') \<and>
   validateField_rules sample_engine code_field (JStr []) \<noteq>
     Inr (Some (''Minimum value is '' @ NumberToString sample_engine (Fin 1)))"
  by (simp add: validateField_rules_def required_rule_def email_rule_def minLength_rule_def
      code_field_def age_field_def text_field_def is_empty_def js_lt_def sample_engine_def)

text \<open>
  C9, amended: for every field that is not required, has a bound \<^verbatim>\<open>min > 0\<close>, and
  whose length rules do not fire on the empty string (no \<^verbatim>\<open>minLength\<close> above 0, no
  \<^verbatim>\<open>maxLength\<close> below 0), validating the empty string gives "Minimum value is N":
  the empty string is compared as the number 0. The empty string is what
  \<^verbatim>\<open>_handleInput\<close> extracts from a blank \<^verbatim>\<open>number\<close> or \<^verbatim>\<open>range\<close> input:
  on such an input event the handler stores the empty string for the field and that
  message in the error store.
\<close>

theorem blank_optional_min_bound:
  assumes "\<not> required f" and "min_f f = Some n" and "num_lt (Fin 0) n"
    and "case minLength f of None \<Rightarrow> True | Some m \<Rightarrow> \<not> num_lt (Fin 0) m"
    and "case maxLength f of None \<Rightarrow> True | Some m \<Rightarrow> \<not> num_lt m (Fin 0)"
  shows "validateField_rules env f (JStr []) =
           Inr (Some (''Minimum value is '' @ NumberToString env n)) \<and>
         (map_of (schema s) k = Some f \<and> k \<noteq> ''__proto__'' \<and>
          (type_f f = ''number'' \<or> type_f f = ''range'') \<and> target_value t = [] \<longrightarrow>
            handleInput env s t k =
              (None,
               s\<lparr>values_p := AList.update k (JStr []) (values_p s),
                 errors_p := filter (\<lambda>p. fst p \<noteq> k) (errors_p s) @
                   [(k, ''Minimum value is '' @ NumberToString env n)]\<rparr>))"
proof -
  have 1: "required_rule f (JStr []) = None" using assms(1) by (simp add: required_rule_def)
  have 2: "email_rule env f (JStr []) = None" by (simp add: email_rule_def)
  have 3: "minLength_rule env f (JStr []) = Inr None"
    using assms(4) by (auto simp: minLength_rule_def js_lt_def split: option.splits)
  have 4: "maxLength_rule env f (JStr []) = Inr None"
    using assms(5) by (auto simp: maxLength_rule_def js_gt_def split: option.splits)
  have 5: "min_rule env f (JStr []) = Some (''Minimum value is '' @ NumberToString env n)"
    using assms(2,3) by (simp add: min_rule_def js_lt_def)
  have r: "validateField_rules env f (JStr []) =
      Inr (Some (''Minimum value is '' @ NumberToString env n))"
    by (simp add: validateField_rules_def 1 2 3 4 5)
  have h: "handleInput env s t k =
      (None,
       s\<lparr>values_p := AList.update k (JStr []) (values_p s),
         errors_p := filter (\<lambda>p. fst p \<noteq> k) (errors_p s) @
           [(k, ''Minimum value is '' @ NumberToString env n)]\<rparr>)"
    if a: "map_of (schema s) k = Some f \<and> k \<noteq> ''__proto__'' \<and>
          (type_f f = ''number'' \<or> type_f f = ''range'') \<and> target_value t = []"
  proof -
    from a have x: "extract_value env f t = JStr []" by (auto simp: extract_value_def)
    let ?s = "s\<lparr>values_p := AList.update k (JStr []) (values_p s)\<rparr>"
    from a have "map_of (schema ?s) k = Some f" by simp
    from validateField_message [OF this r] a
    have "validateField env ?s k (JStr []) =
        Inr (?s\<lparr>errors_p := filter (\<lambda>p. fst p \<noteq> k) (errors_p ?s) @
           [(k, ''Minimum value is '' @ NumberToString env n)]\<rparr>)"
      by simp
    with a x show ?thesis by (simp add: handleInput_def read_field_own)
  qed
  from r h show ?thesis by blast
qed

theorem blank_optional_min_bound_witness:
  "\<not> required age_field \<and> min_f age_field = Some (Fin 1) \<and> num_lt (Fin 0) (Fin 1) \<and>
   minLength age_field = None \<and> maxLength age_field = None \<and>
   type_f age_field = ''number'' \<and>
   validateField_rules sample_engine age_field (JStr []) = Inr (Some ''Minimum value is 1'') \<and>
   handleInput sample_engine (new_form\<lparr>schema := [(''age'', age_field)]\<rparr>)
     \<lparr>target_value = [], target_checked = False\<rparr> ''age'' =
     (None,
      new_form\<lparr>schema := [(''age'', age_field)], values_p := [(''age'', JStr [])],
        errors_p := [(''age'', ''Minimum value is 1'')]\<rparr>)"
proof -
  have a: "\<not> required age_field" "min_f age_field = Some (Fin 1)" "num_lt (Fin 0) (Fin 1)"
    "minLength age_field = None" "maxLength age_field = None" "type_f age_field = ''number''"
    by (simp_all add: age_field_def text_field_def)
  have b: "case minLength age_field of None \<Rightarrow> True | Some m \<Rightarrow> \<not> num_lt (Fin 0) m"
    "case maxLength age_field of None \<Rightarrow> True | Some m \<Rightarrow> \<not> num_lt m (Fin 0)"
    by (simp_all add: a)
  have n: "NumberToString sample_engine (Fin 1) = ''1''" by (simp add: sample_engine_def)
  note t = blank_optional_min_bound [OF a(1,2,3) b, of sample_engine
      "new_form\<lparr>schema := [(''age'', age_field)]\<rparr>" "''age''"
      "\<lparr>target_value = [], target_checked = False\<rparr>"]
  from t have r: "validateField_rules sample_engine age_field (JStr []) =
      Inr (Some ''Minimum value is 1'')"
    by (simp add: n)
  from t a(6) have h: "handleInput sample_engine (new_form\<lparr>schema := [(''age'', age_field)]\<rparr>)
     \<lparr>target_value = [], target_checked = False\<rparr> ''age'' =
     (None,
      new_form\<lparr>schema := [(''age'', age_field)], values_p := [(''age'', JStr [])],
        errors_p := [(''age'', ''Minimum value is 1'')]\<rparr>)"
    by (simp add: n new_form_def)
  from a r h show ?thesis by simp
qed

subsection \<open>The value store\<close>

lemma defaults_foldl:
  assumes "distinct (map fst sch)" and "''__proto__'' \<notin> fst ` set sch"
    and "fst ` set sch \<inter> fst ` set acc = {}"
  shows "foldl (\<lambda>values (key, field). set_prop key (default_value field) values) acc sch =
           acc @ map (\<lambda>(key, field). (key, default_value field)) sch"
  using assms
proof (induction sch arbitrary: acc)
  case Nil
  show ?case by simp
next
  case (Cons entry sch)
  obtain key field where entry: "entry = (key, field)" by (cases entry)
  from Cons.prems entry have k: "key \<noteq> ''__proto__''" "key \<notin> fst ` set acc" by auto
  then have 1: "set_prop key (default_value field) acc = acc @ [(key, default_value field)]"
    by (simp add: set_prop_def update_append_new)
  have "foldl (\<lambda>values (key, field). set_prop key (default_value field) values)
          (acc @ [(key, default_value field)]) sch =
        (acc @ [(key, default_value field)]) @ map (\<lambda>(key, field). (key, default_value field)) sch"
    using Cons.prems entry by (intro Cons.IH) auto
  with 1 entry show ?case by simp
qed

lemma override_step:
  assumes "key \<notin> set ObjectPrototype_names" and "fst ` set vs = fst ` set sch"
  shows "map fst (if has_property sch key then set_prop key v vs else vs) = map fst vs"
    and "map_of (if has_property sch key then set_prop key v vs else vs) k =
           (if k = key \<and> key \<in> fst ` set sch then Some v else map_of vs k)"
proof -
  from assms(1) proto_name have p: "key \<noteq> ''__proto__''" by auto
  from assms(1) have hp: "has_property sch key \<longleftrightarrow> key \<in> fst ` set sch"
    by (simp add: has_property_def has_own_def)
  show "map fst (if has_property sch key then set_prop key v vs else vs) = map fst vs"
  proof (cases "key \<in> fst ` set sch")
    case True
    with assms(2) have "key \<in> fst ` set vs" by simp
    then have "map fst (AList.update key v vs) = map fst vs"
      by (simp add: update_keys)
    with True hp p show ?thesis by (simp add: set_prop_def)
  next
    case False
    with hp show ?thesis by simp
  qed
  show "map_of (if has_property sch key then set_prop key v vs else vs) k =
           (if k = key \<and> key \<in> fst ` set sch then Some v else map_of vs k)"
    using hp p by (simp add: set_prop_def update_conv')
qed

lemma override_foldl:
  assumes "distinct (map fst d)"
    and "list_all (\<lambda>key. key \<notin> set ObjectPrototype_names) (map fst d)"
    and "fst ` set vs = fst ` set sch"
  shows "map fst (foldl (\<lambda>values (key, value).
                   if has_property sch key then set_prop key value values else values) vs d) =
           map fst vs \<and>
         map_of (foldl (\<lambda>values (key, value).
                   if has_property sch key then set_prop key value values else values) vs d) k =
           (case map_of d k of
              None \<Rightarrow> map_of vs k
            | Some v \<Rightarrow> if k \<in> fst ` set sch then Some v else map_of vs k)"
  using assms
proof (induction d arbitrary: vs)
  case Nil
  show ?case by simp
next
  case (Cons entry d)
  obtain key v where entry: "entry = (key, v)" by (cases entry)
  let ?step = "\<lambda>values (key, value).
      if has_property sch key then set_prop key value values else values"
  define vs' where "vs' = (if has_property sch key then set_prop key v vs else vs)"
  from Cons.prems entry have n: "key \<notin> set ObjectPrototype_names" by simp
  have st1: "map fst vs' = map fst vs"
    and st2: "map_of vs' k = (if k = key \<and> key \<in> fst ` set sch then Some v else map_of vs k)"
    unfolding vs'_def by (rule override_step [OF n Cons.prems(3)])+
  have ks: "fst ` set vs' = fst ` set sch"
    using st1 Cons.prems(3) by (metis list.set_map)
  from Cons.prems entry have dd: "distinct (map fst d)"
    "list_all (\<lambda>key. key \<notin> set ObjectPrototype_names) (map fst d)" by simp_all
  note ih = Cons.IH [OF dd ks]
  from Cons.prems entry have nk: "map_of d key = None"
    by (simp add: map_of_eq_None_iff)
  have f: "foldl ?step vs (entry # d) = foldl ?step vs' d"
    by (simp add: entry vs'_def)
  have 1: "map fst (foldl ?step vs (entry # d)) = map fst vs"
    unfolding f using ih st1 by simp
  have 2: "map_of (foldl ?step vs (entry # d)) k =
      (case map_of (entry # d) k of
         None \<Rightarrow> map_of vs k
       | Some v \<Rightarrow> if k \<in> fst ` set sch then Some v else map_of vs k)"
  proof (cases "k = key")
    case True
    with nk have "map_of (foldl ?step vs' d) k = map_of vs' k"
      using ih by simp
    with True st2 show ?thesis unfolding f by (simp add: entry)
  next
    case False
    then have "map_of (entry # d) k = map_of d k" by (simp add: entry)
    moreover from False have "map_of vs' k = map_of vs k" by (simp add: st2)
    ultimately show ?thesis unfolding f using ih by (simp split: option.splits)
  qed
  from 1 2 show ?case by (rule conjI)
qed

text \<open>
  For a well-formed schema and an existing record none of whose keys is a name of
  \<^verbatim>\<open>Object.prototype\<close>, the store has exactly the fields of the schema, in schema
  order; each holds the value of the record when the record has the key, and otherwise
  the default of the field; and the error store is empty.
\<close>

lemma initializeValues_own_keys:
  assumes "wf_schema (schema s)"
    and "case data s of
           None \<Rightarrow> True
         | Some d \<Rightarrow> distinct (map fst d) \<and>
             list_all (\<lambda>key. key \<notin> set ObjectPrototype_names) (map fst d)"
  shows "map fst (values_p (initializeValues s)) = map fst (schema s) \<and>
         map_of (values_p (initializeValues s)) k =
           (case map_of (schema s) k of
              None \<Rightarrow> None
            | Some field \<Rightarrow>
                Some (case (case data s of None \<Rightarrow> None | Some d \<Rightarrow> map_of d k) of
                        None \<Rightarrow> default_value field
                      | Some v \<Rightarrow> v)) \<and>
         errors_p (initializeValues s) = []"
proof -
  let ?v0 = "map (\<lambda>(key, field). (key, default_value field)) (schema s)"
  from assms(1) have d: "distinct (map fst (schema s))"
    and p: "''__proto__'' \<notin> fst ` set (schema s)"
    using proto_name by (auto simp: wf_schema_def list_all_iff)
  have v0: "foldl (\<lambda>values (key, field). set_prop key (default_value field) values) []
      (schema s) = ?v0"
    using defaults_foldl [OF d p, of "[]"] by simp
  have k0: "map fst ?v0 = map fst (schema s)" by (simp add: case_prod_beta comp_def)
  have m0: "map_of ?v0 k = map_option default_value (map_of (schema s) k)"
    by (simp add: map_of_map)
  have e: "errors_p (initializeValues s) = []"
    by (simp add: initializeValues_def Let_def)
  show ?thesis
  proof (cases "data s")
    case None
    then have v: "values_p (initializeValues s) = ?v0"
      by (simp add: initializeValues_def v0)
    have "map_of ?v0 k =
        (case map_of (schema s) k of None \<Rightarrow> None | Some field \<Rightarrow> Some (default_value field))"
      unfolding m0 by (cases "map_of (schema s) k") simp_all
    then have "map_of ?v0 k =
        (case map_of (schema s) k of
           None \<Rightarrow> None
         | Some field \<Rightarrow>
             Some (case (case data s of None \<Rightarrow> None | Some d \<Rightarrow> map_of d k) of
                     None \<Rightarrow> default_value field
                   | Some v \<Rightarrow> v))"
      using None by (simp split: option.splits)
    with k0 e show ?thesis unfolding v by (intro conjI)
  next
    case (Some dd)
    with assms(2) have dd: "distinct (map fst dd)"
      "list_all (\<lambda>key. key \<notin> set ObjectPrototype_names) (map fst dd)" by simp_all
    let ?v1 = "foldl (\<lambda>values (key, value).
        if has_property (schema s) key then set_prop key value values else values) ?v0 dd"
    from Some have v: "values_p (initializeValues s) = ?v1"
      by (simp add: initializeValues_def v0)
    have "fst ` set ?v0 = fst ` set (schema s)"
      using k0 by (metis list.set_map)
    from override_foldl [OF dd this, of k]
    have k1: "map fst ?v1 = map fst ?v0"
      and m1: "map_of ?v1 k =
        (case map_of dd k of
           None \<Rightarrow> map_of ?v0 k
         | Some v \<Rightarrow> if k \<in> fst ` set (schema s) then Some v else map_of ?v0 k)"
      by simp_all
    have "map_of ?v1 k =
        (case map_of (schema s) k of
           None \<Rightarrow> None
         | Some field \<Rightarrow>
             Some (case map_of dd k of None \<Rightarrow> default_value field | Some v \<Rightarrow> v))"
    proof (cases "map_of (schema s) k")
      case None
      then have "k \<notin> fst ` set (schema s)" by (simp add: map_of_eq_None_iff)
      with None show ?thesis unfolding m1 m0 by (cases "map_of dd k") simp_all
    next
      case (Some field)
      then have "k \<in> fst ` set (schema s)" by (simp add: key_in_obj)
      with Some show ?thesis unfolding m1 m0 by (cases "map_of dd k") simp_all
    qed
    then have "map_of ?v1 k =
        (case map_of (schema s) k of
           None \<Rightarrow> None
         | Some field \<Rightarrow>
             Some (case (case data s of None \<Rightarrow> None | Some d \<Rightarrow> map_of d k) of
                     None \<Rightarrow> default_value field
                   | Some v \<Rightarrow> v))"
      using Some by (simp split: option.splits)
    moreover from k1 k0 have "map fst ?v1 = map fst (schema s)" by (rule trans)
    ultimately show ?thesis unfolding v using e by (intro conjI)
  qed
qed

text \<open>
  C6. The store takes the default of each field, \<^verbatim>\<open>false\<close> for a checkbox, the empty
  string otherwise, then the values of the existing record, and the errors are cleared.
  But the record's keys are filtered with \<^verbatim>\<open>key in this.schema\<close>, which is also true
  of the names that the schema object inherits from \<^verbatim>\<open>Object.prototype\<close>: the key
  \<^verbatim>\<open>constructor\<close> of the record \<^verbatim>\<open>{ name: 'Ada', constructor: 'Ferrari' }\<close> is
  not a field of the schema \<^verbatim>\<open>{ name: { type: 'text' } }\<close>, and the store gains it.
\<close>

theorem initializeValues_inherited_key:
  "\<not> has_own (schema driver_form) ''constructor'' \<and>
   values_p (initializeValues driver_form) =
     [(''name'', JStr ''Ada''), (''constructor'', JStr ''Ferrari'')] \<and>
   has_own (values_p (initializeValues driver_form)) ''constructor''"
  by (simp add: initializeValues_def driver_form_def new_form_def set_prop_def has_own_def
      has_property_def default_value_def text_field_def ObjectPrototype_names_def)

lemma initializeValues_schema_data [simp]:
  "schema (initializeValues s) = schema s" "data (initializeValues s) = data s"
  by (simp_all add: initializeValues_def Let_def)

lemma initializeValues_depends:
  "schema s' = schema s \<Longrightarrow> data s' = data s \<Longrightarrow>
   values_p (initializeValues s') = values_p (initializeValues s) \<and>
   errors_p (initializeValues s') = errors_p (initializeValues s)"
  by (cases "data s") (simp_all add: initializeValues_def Let_def)

text \<open>
  C8. Resetting twice leaves the value store and the error store as resetting once
  does, and the stores after a reset do not depend on the stores before it: they are
  derived from the schema and the existing record alone.
\<close>

theorem handleReset_idempotent:
  "values_p (fst (handleReset (fst (handleReset s)))) = values_p (fst (handleReset s)) \<and>
   errors_p (fst (handleReset (fst (handleReset s)))) = errors_p (fst (handleReset s)) \<and>
   values_p (fst (handleReset (s\<lparr>values_p := vs, errors_p := es\<rparr>))) =
     values_p (fst (handleReset s)) \<and>
   errors_p (fst (handleReset (s\<lparr>values_p := vs, errors_p := es\<rparr>))) =
     errors_p (fst (handleReset s))"
proof -
  have a: "values_p (fst (handleReset t)) = values_p (initializeValues t)"
    "errors_p (fst (handleReset t)) = errors_p (initializeValues t)"
    "schema (fst (handleReset t)) = schema t" "data (fst (handleReset t)) = data t" for t
    by (simp_all add: handleReset_def)
  show ?thesis
    using initializeValues_depends [of "fst (handleReset s)" s]
      initializeValues_depends [of "s\<lparr>values_p := vs, errors_p := es\<rparr>" s]
    by (simp add: a)
qed

theorem handleReset_idempotent_witness:
  "values_p (fst (handleReset (fst (handleReset edited_form)))) =
     values_p (fst (handleReset edited_form)) \<and>
   errors_p (fst (handleReset (fst (handleReset edited_form)))) =
     errors_p (fst (handleReset edited_form)) \<and>
   values_p (fst (handleReset edited_form)) = values_p (fst (handleReset driver_form)) \<and>
   errors_p (fst (handleReset edited_form)) = errors_p (fst (handleReset driver_form)) \<and>
   errors_p (fst (handleReset edited_form)) = []"
proof -
  have e: "edited_form =
      driver_form\<lparr>values_p := [(''name'', JStr ''Grace'')],
        errors_p := [(''name'', ''Invalid format'')]\<rparr>"
    by (simp add: edited_form_def)
  have "errors_p (fst (handleReset edited_form)) = []"
    by (simp add: handleReset_def initializeValues_def Let_def)
  then show ?thesis
    using handleReset_idempotent [of edited_form]
      handleReset_idempotent [where s = driver_form and vs = "[(''name'', JStr ''Grace'')]"
        and es = "[(''name'', ''Invalid format'')]"]
    unfolding e [symmetric] by simp
qed

subsection \<open>The group partitioner\<close>

text \<open>
  C3, as stated: flattening the buckets reproduces the declaration order of every
  schema. The unnamed bucket is created first and each named bucket gathers its fields,
  so a grouped field declared before an ungrouped one comes after it in the flattening.
\<close>

theorem groupFields_flatten_counterexample:
  "flatten_groups (groupFields meta_schema) =
     [(''id'', text_field), (''title'', text_field\<lparr>group := Some ''Meta''\<rparr>)] \<and>
   flatten_groups (groupFields meta_schema) \<noteq> meta_schema"
  by (simp add: flatten_groups_def groupFields_def groupFields_step_def meta_schema_def Let_def
      group_name_def text_field_def)

lemma flatten_update_new:
  "g \<notin> fst ` set G \<Longrightarrow> flatten_groups (AList.update g [] G) = flatten_groups G"
  by (induction G) (auto simp: flatten_groups_def)

lemma mset_flatten_update_push:
  "map_of G g = Some b \<Longrightarrow>
   mset (flatten_groups (AList.update g (b @ [e]) G)) = mset (flatten_groups G) + {#e#}"
  by (induction G) (auto simp: flatten_groups_def)

lemma mset_flatten_step:
  "mset (flatten_groups (groupFields_step G e)) = mset (flatten_groups G) + {#e#}"
proof (cases "group_name (snd e) \<in> fst ` set G")
  case True
  then obtain b where "map_of G (group_name (snd e)) = Some b"
    by (metis domD dom_map_of_conv_image_fst)
  with True show ?thesis
    by (simp add: groupFields_step_def mset_flatten_update_push)
next
  case False
  have "map_of (AList.update (group_name (snd e)) [] G) (group_name (snd e)) = Some []"
    by (simp add: update_conv')
  from mset_flatten_update_push [OF this, of e] False show ?thesis
    by (simp add: groupFields_step_def update_conv' flatten_update_new)
qed

lemma mset_flatten_foldl:
  "mset (flatten_groups (foldl groupFields_step G sch)) = mset (flatten_groups G) + mset sch"
  by (induction sch arbitrary: G) (simp_all add: mset_flatten_step)

lemma groupFields_snoc: "groupFields (sch @ [e]) = groupFields_step (groupFields sch) e"
  by (simp add: groupFields_def)

lemma keys_step:
  "map fst (groupFields_step G e) =
     (if group_name (snd e) \<in> fst ` set G then map fst G
      else map fst G @ [group_name (snd e)])"
proof (cases "group_name (snd e) \<in> fst ` set G")
  case True
  then obtain b where "map_of G (group_name (snd e)) = Some b"
    by (metis domD dom_map_of_conv_image_fst)
  with True show ?thesis by (simp add: groupFields_step_def update_keys)
next
  case False
  then show ?thesis
    by (simp add: groupFields_step_def update_conv' update_keys)
qed

lemma map_of_step:
  "map_of (groupFields_step G e) g =
     (if g = group_name (snd e)
      then Some ((case map_of G g of None \<Rightarrow> [] | Some b \<Rightarrow> b) @ [e])
      else map_of G g)"
proof (cases "group_name (snd e) \<in> fst ` set G")
  case True
  then obtain b where "map_of G (group_name (snd e)) = Some b"
    by (metis domD dom_map_of_conv_image_fst)
  with True show ?thesis by (simp add: groupFields_step_def update_conv')
next
  case False
  then have "map_of G (group_name (snd e)) = None"
    by (simp add: map_of_eq_None_iff)
  with False show ?thesis by (simp add: groupFields_step_def update_conv')
qed

lemma groupFields_keys:
  "distinct (map fst (groupFields sch)) \<and> hd (map fst (groupFields sch)) = [] \<and>
   groupFields sch \<noteq> []"
proof (induction sch rule: rev_induct)
  case Nil
  show ?case by (simp add: groupFields_def)
next
  case (snoc e sch)
  let ?G = "groupFields sch"
  from snoc have d: "distinct (map fst ?G)" and h: "hd (map fst ?G) = []" and n: "?G \<noteq> []"
    by simp_all
  have k: "map fst (groupFields (sch @ [e])) =
     (if group_name (snd e) \<in> fst ` set ?G then map fst ?G
      else map fst ?G @ [group_name (snd e)])"
    by (simp only: groupFields_snoc keys_step)
  have 1: "distinct (map fst (groupFields (sch @ [e])))"
    unfolding k using d by auto
  have 2: "hd (map fst (groupFields (sch @ [e]))) = []"
    unfolding k using h n by simp
  have "map fst (groupFields (sch @ [e])) \<noteq> []"
    unfolding k using n by simp
  then have 3: "groupFields (sch @ [e]) \<noteq> []" by auto
  from 1 2 3 show ?case by simp
qed

lemma groupFields_buckets:
  "map_of (groupFields sch) g =
     (if g = [] \<or> g \<in> (\<lambda>entry. group_name (snd entry)) ` set sch
      then Some (filter (\<lambda>entry. group_name (snd entry) = g) sch) else None)"
proof (induction sch rule: rev_induct)
  case Nil
  show ?case by (simp add: groupFields_def)
next
  case (snoc e sch)
  show ?case
  proof (cases "g = group_name (snd e)")
    case True
    have "(case map_of (groupFields sch) g of None \<Rightarrow> [] | Some b \<Rightarrow> b) =
        filter (\<lambda>entry. group_name (snd entry) = g) sch"
      unfolding snoc by (auto simp: filter_empty_conv empty_filter_conv)
    with True show ?thesis
      by (simp add: groupFields_snoc map_of_step)
  next
    case False
    then have "map_of (groupFields (sch @ [e])) g = map_of (groupFields sch) g"
      by (simp add: groupFields_snoc map_of_step)
    with False show ?thesis unfolding snoc by auto
  qed
qed

text \<open>
  The order of first appearance: \<open>first_seen\<close> keeps the first occurrence of each
  element, and is the list that \<open>remdups\<close> makes of the reversed list, reversed.
\<close>

lemma set_first_seen [simp]: "set (first_seen xs) = set xs"
  by (induction xs) auto

lemma distinct_first_seen [simp]: "distinct (first_seen xs)"
  by (induction xs) auto

lemma first_seen_snoc:
  "first_seen (xs @ [x]) = (if x \<in> set xs then first_seen xs else first_seen xs @ [x])"
  by (induction xs) auto

lemma first_seen_remdups: "first_seen xs = rev (remdups (rev xs))"
  by (induction xs rule: rev_induct) (simp_all add: first_seen_snoc)

lemma first_seen_distinct: "distinct xs \<Longrightarrow> first_seen xs = xs"
  by (induction xs) (auto simp: filter_id_conv)

lemma keys_foldl:
  "map fst (foldl groupFields_step G sch) =
     first_seen (map fst G @ map (\<lambda>entry. group_name (snd entry)) sch)"
  if "distinct (map fst G)"
  using that
proof (induction sch rule: rev_induct)
  case Nil
  then show ?case by (simp add: first_seen_distinct)
next
  case (snoc e sch)
  let ?G = "foldl groupFields_step G sch"
  let ?ns = "map fst G @ map (\<lambda>entry. group_name (snd entry)) sch"
  have ih: "map fst ?G = first_seen ?ns" by (rule snoc.IH [OF snoc.prems])
  have "fst ` set ?G = set (map fst ?G)" by simp
  also have "\<dots> = set ?ns" unfolding ih by (rule set_first_seen)
  finally have m: "fst ` set ?G = set ?ns" .
  have "map fst (foldl groupFields_step G (sch @ [e])) =
      (if group_name (snd e) \<in> set ?ns then first_seen ?ns
       else first_seen ?ns @ [group_name (snd e)])"
    by (simp only: foldl_append foldl.simps keys_step m ih)
  also have "\<dots> = first_seen (?ns @ [group_name (snd e)])"
    by (simp only: first_seen_snoc)
  finally show ?case by simp
qed

lemma alist_by_keys:
  "distinct (map fst G) \<Longrightarrow> map (\<lambda>g. (g, the (map_of G g))) (map fst G) = G"
proof (induction G)
  case Nil
  show ?case by simp
next
  case (Cons p G)
  obtain k v where p: "p = (k, v)" by (cases p)
  from Cons.prems p have nk: "k \<notin> fst ` set G" and d: "distinct (map fst G)" by simp_all
  have "map (\<lambda>g. (g, the (map_of ((k, v) # G) g))) (map fst G) =
      map (\<lambda>g. (g, the (map_of G g))) (map fst G)"
    using nk by (intro map_cong) auto
  with Cons.IH [OF d] show ?case by (simp add: p)
qed

lemma groupFields_names:
  "map fst (groupFields sch) = first_seen ([] # map (\<lambda>entry. group_name (snd entry)) sch)"
  using keys_foldl [of "[([], [])]" sch] by (simp add: groupFields_def)

lemma groupFields_spec: "groupFields sch = spec_groupFields sch"
proof -
  let ?G = "groupFields sch"
  let ?ns = "first_seen ([] # map (\<lambda>entry. group_name (snd entry)) sch)"
  have d: "distinct (map fst ?G)" using groupFields_keys [of sch] by simp
  have "?G = map (\<lambda>g. (g, the (map_of ?G g))) (map fst ?G)"
    by (rule alist_by_keys [OF d, symmetric])
  also have "\<dots> = map (\<lambda>g. (g, the (map_of ?G g))) ?ns"
    by (simp only: groupFields_names)
  also have "\<dots> = map (\<lambda>g. (g, filter (\<lambda>entry. group_name (snd entry) = g) sch)) ?ns"
  proof (rule map_cong [OF refl])
    fix g assume "g \<in> set ?ns"
    then have "g = [] \<or> g \<in> (\<lambda>entry. group_name (snd entry)) ` set sch" by auto
    then have "map_of ?G g = Some (filter (\<lambda>entry. group_name (snd entry) = g) sch)"
      by (simp only: groupFields_buckets if_True)
    then show "(g, the (map_of ?G g)) = (g, filter (\<lambda>entry. group_name (snd entry) = g) sch)"
      by simp
  qed
  finally show ?thesis by (simp only: spec_groupFields_def)
qed

lemma regroup_same:
  assumes "k x = h"
  shows "concat (map (\<lambda>g. filter (\<lambda>e. k e = g) (x # xs)) (first_seen (h # map k (x # xs)))) =
         x # concat (map (\<lambda>g. filter (\<lambda>e. k e = g) xs) (first_seen (h # map k xs)))"
proof -
  let ?rest = "filter (\<lambda>y. y \<noteq> h) (first_seen (map k xs))"
  have f: "first_seen (h # map k (x # xs)) = h # ?rest"
    "first_seen (h # map k xs) = h # ?rest"
    using assms by simp_all
  have m: "map (\<lambda>g. filter (\<lambda>e. k e = g) (x # xs)) ?rest =
        map (\<lambda>g. filter (\<lambda>e. k e = g) xs) ?rest"
  proof (rule map_cong [OF refl])
    fix g assume "g \<in> set ?rest"
    then have "g \<noteq> h" by simp
    with assms show "filter (\<lambda>e. k e = g) (x # xs) = filter (\<lambda>e. k e = g) xs" by simp
  qed
  have "concat (map (\<lambda>g. filter (\<lambda>e. k e = g) (x # xs)) (h # ?rest)) =
      filter (\<lambda>e. k e = h) (x # xs) @ concat (map (\<lambda>g. filter (\<lambda>e. k e = g) (x # xs)) ?rest)"
    by simp
  also have "\<dots> = (x # filter (\<lambda>e. k e = h) xs) @
      concat (map (\<lambda>g. filter (\<lambda>e. k e = g) xs) ?rest)"
    unfolding m using assms by simp
  also have "\<dots> = x # concat (map (\<lambda>g. filter (\<lambda>e. k e = g) xs) (h # ?rest))"
    by simp
  finally show ?thesis unfolding f .
qed

lemma regroup_id_iff:
  "concat (map (\<lambda>g. filter (\<lambda>e. k e = g) xs) (first_seen (h # map k xs))) = xs \<longleftrightarrow>
   distinct (remdups_adj (h # map k xs))"
proof (induction xs arbitrary: h)
  case Nil
  show ?case by simp
next
  case (Cons x xs)
  show ?case
  proof (cases "k x = h")
    case True
    then show ?thesis
      unfolding regroup_same [where k = k and x = x and h = h and xs = xs, OF True]
      using Cons.IH [of h] by auto
  next
    case False
    show ?thesis
    proof (cases "h \<in> k ` set xs")
      case True
      then obtain ys where ys: "filter (\<lambda>e. k e = h) xs = ys" and ne: "ys \<noteq> []"
        by (auto simp: filter_empty_conv)
      then obtain y ys' where y: "ys = y # ys'" by (cases ys) auto
      from ys y have "y \<in> set (filter (\<lambda>e. k e = h) xs)" by simp
      then have ky: "k y = h" by simp
      have "concat (map (\<lambda>g. filter (\<lambda>e. k e = g) (x # xs)) (first_seen (h # map k (x # xs))))
            = y # ys' @ concat (map (\<lambda>g. filter (\<lambda>e. k e = g) (x # xs))
                 (filter (\<lambda>y. y \<noteq> h) (first_seen (map k (x # xs)))))"
        using False ys y by simp
      moreover have "y \<noteq> x" using ky False by auto
      ultimately have "concat (map (\<lambda>g. filter (\<lambda>e. k e = g) (x # xs))
          (first_seen (h # map k (x # xs)))) \<noteq> x # xs"
        by simp
      moreover have "\<not> distinct (remdups_adj (h # map k (x # xs)))"
        using True False by auto
      ultimately show ?thesis by simp
    next
      case notin: False
      have e: "filter (\<lambda>e. k e = h) (x # xs) = []"
        using False notin by (auto simp: filter_empty_conv)
      have "h \<notin> set (first_seen (map k (x # xs)))" using False notin by auto
      then have i: "filter (\<lambda>y. y \<noteq> h) (first_seen (map k (x # xs))) =
          first_seen (map k (x # xs))"
        by (simp only: filter_id_conv) auto
      have "first_seen (map k (x # xs)) = first_seen (k x # map k (x # xs))"
        by simp
      have r: "concat (map (\<lambda>g. filter (\<lambda>e. k e = g) (x # xs))
            (first_seen (h # map k (x # xs)))) =
          concat (map (\<lambda>g. filter (\<lambda>e. k e = g) (x # xs))
            (first_seen (k x # map k (x # xs))))"
        unfolding first_seen.simps(2) [of h] i using e by simp
      have c: "distinct (remdups_adj (h # map k (x # xs))) \<longleftrightarrow> distinct (remdups_adj (k x # map k xs))"
        using False notin by auto
      show ?thesis
        unfolding r c regroup_same [where k = k and x = x and h = "k x" and xs = xs, OF refl] using Cons.IH [of "k x"] by simp
    qed
  qed
qed

lemma flatten_spec:
  "flatten_groups (spec_groupFields sch) =
     concat (map (\<lambda>g. filter (\<lambda>entry. group_name (snd entry) = g) sch)
       (first_seen ([] # map (\<lambda>entry. group_name (snd entry)) sch)))"
  by (simp add: flatten_groups_def spec_groupFields_def comp_def)

text \<open>
  C3, amended: for every schema, the partition has the unnamed bucket first and then one
  bucket for each group name, in the order in which the names are first seen in the
  declaration order, and each bucket holds the fields of its group in their declaration
  order (this is \<open>spec_groupFields\<close>). Flattening the buckets in bucket order gives
  the fields of the schema, each exactly once: a permutation of the declaration order.
  It gives the declaration order itself exactly when the schema declares its fields
  bucket by bucket, the fields without a group first and the fields of each group next
  to each other.
\<close>

theorem groupFields_flatten:
  "groupFields sch = spec_groupFields sch \<and>
   mset (flatten_groups (groupFields sch)) = mset sch \<and>
   (flatten_groups (groupFields sch) = sch \<longleftrightarrow> declared_by_bucket sch)"
proof -
  have 1: "groupFields sch = spec_groupFields sch" by (rule groupFields_spec)
  have 2: "mset (flatten_groups (groupFields sch)) = mset sch"
    using mset_flatten_foldl [of "[([], [])]" sch]
    by (simp add: groupFields_def flatten_groups_def)
  have 3: "flatten_groups (groupFields sch) = sch \<longleftrightarrow> declared_by_bucket sch"
    unfolding 1 flatten_spec declared_by_bucket_def by (rule regroup_id_iff)
  from 1 2 3 show ?thesis by blast
qed

theorem groupFields_flatten_witness:
  "groupFields mixed_schema =
     [([], [(''name'', text_field)]),
      (''Address'', [(''street'', text_field\<lparr>group := Some ''Address''\<rparr>),
                     (''city'', text_field\<lparr>group := Some ''Address''\<rparr>)]),
      (''Contact'', [(''phone'', text_field\<lparr>group := Some ''Contact''\<rparr>)])] \<and>
   mset (flatten_groups (groupFields mixed_schema)) = mset mixed_schema \<and>
   \<not> declared_by_bucket mixed_schema \<and>
   flatten_groups (groupFields mixed_schema) \<noteq> mixed_schema \<and>
   declared_by_bucket tidy_schema \<and>
   flatten_groups (groupFields tidy_schema) = tidy_schema"
proof -
  note t = groupFields_flatten [of mixed_schema]
  have s: "spec_groupFields mixed_schema =
     [([], [(''name'', text_field)]),
      (''Address'', [(''street'', text_field\<lparr>group := Some ''Address''\<rparr>),
                     (''city'', text_field\<lparr>group := Some ''Address''\<rparr>)]),
      (''Contact'', [(''phone'', text_field\<lparr>group := Some ''Contact''\<rparr>)])]"
    by (simp add: spec_groupFields_def mixed_schema_def group_name_def text_field_def)
  have n: "\<not> declared_by_bucket mixed_schema"
    by (simp add: declared_by_bucket_def mixed_schema_def group_name_def text_field_def)
  have y: "declared_by_bucket tidy_schema"
    by (simp add: declared_by_bucket_def tidy_schema_def group_name_def text_field_def)
  from t have 1: "groupFields mixed_schema = spec_groupFields mixed_schema"
    by (rule conjunct1)
  from t have 2: "mset (flatten_groups (groupFields mixed_schema)) = mset mixed_schema"
    by (elim conjE)
  from t n have 3: "flatten_groups (groupFields mixed_schema) \<noteq> mixed_schema"
    by blast
  from groupFields_flatten [of tidy_schema] y
  have 4: "flatten_groups (groupFields tidy_schema) = tidy_schema"
    by blast
  from 1 s 2 n 3 y 4 show ?thesis by simp
qed

subsection \<open>Whole-form validation\<close>

lemma validateFields_frame:
  "validateFields env s ks = (r, s') \<Longrightarrow> s' = s\<lparr>errors_p := errors_p s'\<rparr>"
proof (induction ks arbitrary: s)
  case Nil
  then show ?case by simp
next
  case (Cons k ks)
  show ?case
  proof (cases "validateField env s k (get_value (values_p s) k)")
    case (Inl e)
    with Cons.prems show ?thesis by simp
  next
    case (Inr t)
    with Cons.prems have "validateFields env t ks = (r, s')" by simp
    from Cons.IH [OF this] validateField_frame [OF Inr] show ?thesis
      by (metis form.surjective form.update_convs(9))
  qed
qed

lemma validateForm_frame:
  "validateForm env s = (r, s') \<Longrightarrow> s' = s\<lparr>errors_p := errors_p s'\<rparr>"
  by (auto simp: validateForm_def split: prod.splits option.splits
      dest: validateFields_frame)

lemma wf_schema_key:
  "wf_schema sch \<Longrightarrow> k \<in> fst ` set sch \<Longrightarrow> k \<noteq> ''__proto__''"
  using proto_name by (auto simp: wf_schema_def list_all_iff)

lemma validateFields_all_pass:
  assumes "\<forall>k \<in> set ks. \<exists>f. map_of sch k = Some f \<and>
             validateField_rules env f (get_value vals k) = Inr None"
    and "schema s = sch" and "values_p s = vals"
  shows "validateFields env s ks =
           (None, s\<lparr>errors_p := filter (\<lambda>p. fst p \<notin> set ks) (errors_p s)\<rparr>)"
  using assms
proof (induction ks arbitrary: s)
  case Nil
  then show ?case by simp
next
  case (Cons k ks)
  from Cons.prems obtain f where f: "map_of (schema s) k = Some f"
    "validateField_rules env f (get_value (values_p s) k) = Inr None"
    by auto
  let ?t = "s\<lparr>errors_p := filter (\<lambda>p. fst p \<noteq> k) (errors_p s)\<rparr>"
  have "validateFields env ?t ks =
      (None, ?t\<lparr>errors_p := filter (\<lambda>p. fst p \<notin> set ks) (errors_p ?t)\<rparr>)"
    using Cons.prems by (intro Cons.IH) simp_all
  then show ?case
    using validateField_pass [OF f] by (simp add: conj_commute)
qed

lemma validateFields_one_message:
  assumes "distinct ks" and "k \<in> set ks" and "k \<noteq> ''__proto__''"
    and "map_of sch k = Some f"
    and "validateField_rules env f (get_value vals k) = Inr (Some m)"
    and "\<forall>k' \<in> set ks. k' \<noteq> k \<longrightarrow> (\<exists>f'. map_of sch k' = Some f' \<and>
             validateField_rules env f' (get_value vals k') = Inr None)"
    and "schema s = sch" and "values_p s = vals"
  shows "validateFields env s ks =
           (None, s\<lparr>errors_p := filter (\<lambda>p. fst p \<notin> set ks) (errors_p s) @ [(k, m)]\<rparr>)"
  using assms
proof (induction ks arbitrary: s)
  case Nil
  then show ?case by simp
next
  case (Cons k' ks)
  show ?case
  proof (cases "k' = k")
    case True
    let ?t = "s\<lparr>errors_p := filter (\<lambda>p. fst p \<noteq> k) (errors_p s) @ [(k, m)]\<rparr>"
    have 1: "validateField env s k (get_value (values_p s) k) = Inr ?t"
      using Cons.prems by (intro validateField_message) simp_all
    from Cons.prems True have nk: "k \<notin> set ks" by simp
    have "\<forall>k'' \<in> set ks. \<exists>f'. map_of sch k'' = Some f' \<and>
             validateField_rules env f' (get_value vals k'') = Inr None"
      using Cons.prems(6) nk by auto
    then have "validateFields env ?t ks =
        (None, ?t\<lparr>errors_p := filter (\<lambda>p. fst p \<notin> set ks) (errors_p ?t)\<rparr>)"
      using Cons.prems by (intro validateFields_all_pass [where sch = sch and vals = vals]) simp_all
    with 1 True nk show ?thesis by (simp add: conj_commute)
  next
    case False
    with Cons.prems obtain f' where f': "map_of (schema s) k' = Some f'"
      "validateField_rules env f' (get_value (values_p s) k') = Inr None"
      by auto
    let ?t = "s\<lparr>errors_p := filter (\<lambda>p. fst p \<noteq> k') (errors_p s)\<rparr>"
    have "validateFields env ?t ks =
        (None, ?t\<lparr>errors_p := filter (\<lambda>p. fst p \<notin> set ks) (errors_p ?t) @ [(k, m)]\<rparr>)"
      using Cons.prems False by (intro Cons.IH) simp_all
    then show ?thesis
      using validateField_pass [OF f'] by (simp add: conj_commute)
  qed
qed

lemma validateFields_other:
  assumes "validateFields env s ks = (r, s')" and "k \<notin> set ks"
  shows "map_of (errors_p s') k = map_of (errors_p s) k"
  using assms
proof (induction ks arbitrary: s)
  case Nil
  then show ?case by simp
next
  case (Cons k' ks)
  show ?case
  proof (cases "validateField env s k' (get_value (values_p s) k')")
    case (Inl e)
    with Cons.prems show ?thesis by simp
  next
    case (Inr t)
    with Cons.prems have "validateFields env t ks = (r, s')" and "k \<notin> set ks" and "k \<noteq> k'"
      by auto
    with Cons.IH [of t] validateField_other [OF Inr] show ?thesis by simp
  qed
qed

lemma validateFields_pass_key:
  assumes "validateFields env s ks = (None, s')" and "k \<in> set ks" and "distinct ks"
    and "map_of (schema s) k = Some f"
    and "validateField_rules env f (get_value (values_p s) k) = Inr None"
  shows "map_of (errors_p s') k = None"
  using assms
proof (induction ks arbitrary: s)
  case Nil
  then show ?case by simp
next
  case (Cons k' ks)
  show ?case
  proof (cases "validateField env s k' (get_value (values_p s) k')")
    case (Inl e)
    with Cons.prems show ?thesis by simp
  next
    case (Inr t)
    with Cons.prems have rest: "validateFields env t ks = (None, s')" by simp
    from validateField_frame [OF Inr] have fr: "schema t = schema s" "values_p t = values_p s"
      by (metis form.select_convs(2) form.surjective form.update_convs(9),
          metis form.select_convs(10) form.surjective form.update_convs(9))
    show ?thesis
    proof (cases "k' = k")
      case True
      with Cons.prems have nk: "k \<notin> set ks" by simp
      from Inr True Cons.prems(4,5) have "errors_p t = filter (\<lambda>p. fst p \<noteq> k) (errors_p s)"
        by (auto simp: validateField_pass)
      then have "map_of (errors_p t) k = None"
        by (auto simp: map_of_eq_None_iff)
      with validateFields_other [OF rest nk] show ?thesis by simp
    next
      case False
      with Cons.prems have "k \<in> set ks" "distinct ks" by simp_all
      with Cons.IH [OF rest] Cons.prems(4,5) fr show ?thesis by simp
    qed
  qed
qed

lemma handleSubmit_invalid:
  "validateForm env s = (Inr b, s1) \<Longrightarrow> errors_p s1 \<noteq> [] \<Longrightarrow>
   handleSubmit env w s = (Returned_invalid, s1, [])"
  by (auto simp: handleSubmit_def validateForm_def split: prod.splits option.splits)

text \<open>
  C10, as stated: every required checkbox field validates \<^verbatim>\<open>false\<close> without a
  violation. The value bounds are applied to every type of field, and \<^verbatim>\<open>false\<close> is
  compared as the number 0, so a required checkbox with \<^verbatim>\<open>min: 1\<close> reports
  "Minimum value is 1".
\<close>

theorem required_checkbox_unchecked_counterexample:
  "type_f count_field = ''checkbox'' \<and> required count_field \<and>
   validateField_rules sample_engine count_field (JBool False) =
     Inr (Some ''Minimum value is 1'') \<and>
   validateField_rules sample_engine count_field (JBool False) \<noteq> Inr None"
  by (simp add: validateField_rules_def required_rule_def email_rule_def minLength_rule_def
      maxLength_rule_def min_rule_def
      count_field_def terms_field_def text_field_def is_empty_def js_lt_def sample_engine_def)

text \<open>
  C10, amended: for every required checkbox field that has no bound \<^verbatim>\<open>min\<close> above 0
  and no bound \<^verbatim>\<open>max\<close> below 0 (in particular one without value bounds), validating
  \<^verbatim>\<open>false\<close> gives no violation: the required rule fires only on the empty string,
  \<^verbatim>\<open>null\<close> and \<^verbatim>\<open>undefined\<close>. The value \<^verbatim>\<open>false\<close> is the one that the store
  gives a checkbox that declares no default. And when such a field of a well-formed
  schema holds \<^verbatim>\<open>false\<close>, the whole-form validation leaves no error under its name.
\<close>

theorem required_checkbox_unchecked:
  assumes "type_f f = ''checkbox''" and "required f"
    and "case min_f f of None \<Rightarrow> True | Some n \<Rightarrow> \<not> num_lt (Fin 0) n"
    and "case max_f f of None \<Rightarrow> True | Some n \<Rightarrow> \<not> num_lt n (Fin 0)"
  shows "validateField_rules env f (JBool False) = Inr None \<and>
         (default_f f = JUndefined \<longrightarrow> default_value f = JBool False) \<and>
         (wf_schema (schema s) \<and> (k, f) \<in> set (schema s) \<and>
          get_value (values_p s) k = JBool False \<and> validateForm env s = (Inr b, s1) \<longrightarrow>
            map_of (errors_p s1) k = None)"
proof -
  have 1: "required_rule f (JBool False) = None" by (simp add: required_rule_def is_empty_def)
  have 2: "email_rule env f (JBool False) = None" by (simp add: email_rule_def)
  have 3: "minLength_rule env f (JBool False) = Inr None"
    by (simp add: minLength_rule_def js_lt_def split: option.splits)
  have 4: "maxLength_rule env f (JBool False) = Inr None"
    by (simp add: maxLength_rule_def js_gt_def split: option.splits)
  have 5: "min_rule env f (JBool False) = None"
    using assms(3) by (auto simp: min_rule_def js_lt_def split: option.splits)
  have 6: "max_rule env f (JBool False) = None"
    using assms(4) by (auto simp: max_rule_def js_gt_def split: option.splits)
  have 7: "pattern_rule env f (JBool False) = Inr None"
    by (simp add: pattern_rule_def split: option.splits)
  have r: "validateField_rules env f (JBool False) = Inr None"
    by (simp add: validateField_rules_def 1 2 3 4 5 6 7)
  have d: "default_f f = JUndefined \<longrightarrow> default_value f = JBool False"
    using assms(1) by (simp add: default_value_def)
  have v: "map_of (errors_p s1) k = None"
    if a: "wf_schema (schema s) \<and> (k, f) \<in> set (schema s) \<and>
          get_value (values_p s) k = JBool False \<and> validateForm env s = (Inr b, s1)"
  proof -
    from a have di: "distinct (map fst (schema s))" by (simp add: wf_schema_def)
    from a have kf: "(k, f) \<in> set (schema s)" by simp
    then have ks: "k \<in> set (map fst (schema s))" by force
    from di kf have m: "map_of (schema s) k = Some f" by simp
    from a have "validateFields env s (map fst (schema s)) = (None, s1)"
      by (auto simp: validateForm_def split: prod.splits option.splits)
    from validateFields_pass_key [OF this ks di m] a r show ?thesis by simp
  qed
  from r d v show ?thesis by blast
qed

theorem required_checkbox_unchecked_witness:
  "type_f terms_field = ''checkbox'' \<and> required terms_field \<and>
   min_f terms_field = None \<and> max_f terms_field = None \<and>
   default_f terms_field = JUndefined \<and>
   validateField_rules sample_engine terms_field (JBool False) = Inr None \<and>
   default_value terms_field = JBool False \<and>
   wf_schema (schema terms_form) \<and>
   get_value (values_p terms_form) ''terms'' = JBool False \<and>
   validateForm sample_engine terms_form = (Inr True, terms_form) \<and>
   map_of (errors_p terms_form) ''terms'' = None"
proof -
  have a: "type_f terms_field = ''checkbox''" "required terms_field"
    "min_f terms_field = None" "max_f terms_field = None" "default_f terms_field = JUndefined"
    by (simp_all add: terms_field_def text_field_def)
  have b: "case min_f terms_field of None \<Rightarrow> True | Some n \<Rightarrow> \<not> num_lt (Fin 0) n"
    "case max_f terms_field of None \<Rightarrow> True | Some n \<Rightarrow> \<not> num_lt n (Fin 0)"
    by (simp_all add: a)
  note t = required_checkbox_unchecked [OF a(1,2) b, of sample_engine terms_form "''terms''"
      True terms_form]
  have f: "schema terms_form = [(''terms'', terms_field)]"
    "values_p terms_form = [(''terms'', JBool False)]" "errors_p terms_form = []"
    by (simp_all add: terms_form_def new_form_def)
  have w: "wf_schema (schema terms_form)"
    by (simp add: f wf_schema_def ObjectPrototype_names_def)
  have g: "get_value (values_p terms_form) ''terms'' = JBool False"
    by (simp add: f get_value_def)
  from t have r: "validateField_rules sample_engine terms_field (JBool False) = Inr None"
    by (rule conjunct1)
  have v: "validateForm sample_engine terms_form = (Inr True, terms_form)"
    by (simp add: validateForm_def validateField_def read_field_def f get_value_def r)
  from t a w g v f have "default_value terms_field = JBool False"
    and "map_of (errors_p terms_form) ''terms'' = None"
    by simp_all
  with a r w g v show ?thesis by simp
qed

text \<open>
  C4. When the whole-form validation ends with a non-empty error store, the handler
  returns at once: the state is the one that the validation left, which differs from the
  state before only in the error store, and there is no effect at all (no payload, no
  write, no event, no timer). In particular, in a form whose schema is well formed and
  whose error store holds no stale field, when one required field is empty and every
  other field passes its rules, the error store after the submission is exactly the
  message "This field is required" under the name of that field.
\<close>

theorem submit_rejected_validation:
  "(validateForm env s = (Inr b, s1) \<and> errors_p s1 \<noteq> [] \<longrightarrow>
      handleSubmit env w s = (Returned_invalid, s1, []) \<and>
      s1 = s\<lparr>errors_p := errors_p s1\<rparr>) \<and>
   (wf_schema (schema s) \<and> fst ` set (errors_p s) \<subseteq> fst ` set (schema s) \<and>
    (k, f) \<in> set (schema s) \<and> required f \<and> is_empty (get_value (values_p s) k) \<and>
    (\<forall>(k', f') \<in> set (schema s). k' \<noteq> k \<longrightarrow>
       validateField_rules env f' (get_value (values_p s) k') = Inr None) \<longrightarrow>
      handleSubmit env w s =
        (Returned_invalid, s\<lparr>errors_p := [(k, ''This field is required'')]\<rparr>, []))"
proof (intro conjI impI)
  assume a: "validateForm env s = (Inr b, s1) \<and> errors_p s1 \<noteq> []"
  then show "handleSubmit env w s = (Returned_invalid, s1, [])"
    by (simp add: handleSubmit_invalid)
  from a show "s1 = s\<lparr>errors_p := errors_p s1\<rparr>"
    by (auto dest: validateForm_frame)
next
  assume a: "wf_schema (schema s) \<and> fst ` set (errors_p s) \<subseteq> fst ` set (schema s) \<and>
    (k, f) \<in> set (schema s) \<and> required f \<and> is_empty (get_value (values_p s) k) \<and>
    (\<forall>(k', f') \<in> set (schema s). k' \<noteq> k \<longrightarrow>
       validateField_rules env f' (get_value (values_p s) k') = Inr None)"
  let ?ks = "map fst (schema s)"
  let ?m = "''This field is required''"
  from a have d: "distinct ?ks" by (simp add: wf_schema_def)
  from a have kf: "(k, f) \<in> set (schema s)" by simp
  then have k: "k \<in> set ?ks" by force
  from kf have "k \<in> fst ` set (schema s)" by force
  with a have p: "k \<noteq> ''__proto__''" by (simp add: wf_schema_key [of "schema s" k])
  from d kf have f: "map_of (schema s) k = Some f" by simp
  from a have r: "validateField_rules env f (get_value (values_p s) k) = Inr (Some ?m)"
    by (simp add: required_rule_fires)
  have o: "\<forall>k' \<in> set ?ks. k' \<noteq> k \<longrightarrow> (\<exists>f'. map_of (schema s) k' = Some f' \<and>
             validateField_rules env f' (get_value (values_p s) k') = Inr None)"
  proof (intro ballI impI)
    fix k' assume "k' \<in> set ?ks" and ne: "k' \<noteq> k"
    then obtain f' where m: "(k', f') \<in> set (schema s)" by auto
    with d have "map_of (schema s) k' = Some f'" by simp
    moreover from a m ne have "validateField_rules env f' (get_value (values_p s) k') = Inr None"
      by auto
    ultimately show "\<exists>f'. map_of (schema s) k' = Some f' \<and>
             validateField_rules env f' (get_value (values_p s) k') = Inr None" by simp
  qed
  from a have "filter (\<lambda>p. fst p \<notin> set ?ks) (errors_p s) = []"
    by (auto simp: filter_empty_conv)
  with validateFields_one_message [OF d k p f r o refl refl]
  have "validateFields env s ?ks = (None, s\<lparr>errors_p := [(k, ?m)]\<rparr>)" by simp
  then have "validateForm env s = (Inr False, s\<lparr>errors_p := [(k, ?m)]\<rparr>)"
    by (simp add: validateForm_def)
  then show "handleSubmit env w s = (Returned_invalid, s\<lparr>errors_p := [(k, ?m)]\<rparr>, [])"
    by (simp add: handleSubmit_def)
qed

theorem submit_rejected_validation_witness:
  "wf_schema (schema signup_form) \<and>
   required name_field \<and> is_empty (get_value (values_p signup_form) ''name'') \<and>
   validateField_rules sample_engine email_field
     (get_value (values_p signup_form) ''email'') = Inr None \<and>
   validateForm sample_engine signup_form =
     (Inr False, signup_form\<lparr>errors_p := [(''name'', ''This field is required'')]\<rparr>) \<and>
   handleSubmit sample_engine sample_world signup_form =
     (Returned_invalid, signup_form\<lparr>errors_p := [(''name'', ''This field is required'')]\<rparr>, [])"
proof -
  let ?s1 = "signup_form\<lparr>errors_p := [(''name'', ''This field is required'')]\<rparr>"
  have w: "wf_schema (schema signup_form)"
    by (simp add: wf_schema_def signup_form_def new_form_def ObjectPrototype_names_def)
  have r: "required name_field" by (simp add: name_field_def text_field_def)
  have e: "is_empty (get_value (values_p signup_form) ''name'')"
    by (simp add: is_empty_def get_value_def signup_form_def new_form_def)
  have v: "get_value (values_p signup_form) ''email'' = JStr ''a@b.co''"
    by (simp add: get_value_def signup_form_def new_form_def)
  have o: "validateField_rules sample_engine email_field (JStr ''a@b.co'') = Inr None"
    by (simp add: validateField_rules_def required_rule_def email_rule_def minLength_rule_def
        maxLength_rule_def min_rule_def max_rule_def pattern_rule_def is_empty_def
        email_field_def text_field_def isValidEmail_def email_char_def is_space_def
        js_lt_def js_gt_def)
  have s: "schema signup_form = [(''name'', name_field), (''email'', email_field)]"
    "errors_p signup_form = []"
    "values_p signup_form = [(''name'', JStr []), (''email'', JStr ''a@b.co'')]"
    by (simp_all add: signup_form_def new_form_def)
  have n: "validateField_rules sample_engine name_field (JStr []) =
      Inr (Some ''This field is required'')"
    using r by (simp add: required_rule_fires is_empty_def)
  have f: "validateForm sample_engine signup_form = (Inr False, ?s1)"
    by (simp add: validateForm_def validateField_def read_field_def s get_value_def n o
        set_prop_def has_own_def)
  have h: "handleSubmit sample_engine sample_world signup_form = (Returned_invalid, ?s1, [])"
    using submit_rejected_validation [of sample_engine signup_form False ?s1 sample_world
        "''name''" name_field] w r e o f
    by (simp add: s v)
  from w r e o v h f show ?thesis by simp
qed

subsection \<open>Submission\<close>

lemma prepare_submitData_returns:
  "list_all (\<lambda>k. read_field sch k \<noteq> None) (map fst entries) \<Longrightarrow>
   \<exists>d. prepare_submitData sch acc entries = Inr d"
proof (induction entries arbitrary: acc)
  case Nil
  show ?case by simp
next
  case (Cons entry entries)
  obtain key v where entry: "entry = (key, v)" by (cases entry)
  from Cons.prems entry obtain f where "read_field sch key = Some f" by auto
  with Cons entry show ?case by simp
qed

lemma validateForm_valid:
  assumes "validateForm env s = (Inr True, s1)"
  shows "s1 = s\<lparr>errors_p := []\<rparr>"
proof -
  from assms have "errors_p s1 = []"
    by (auto simp: validateForm_def split: prod.splits option.splits)
  with validateForm_frame [OF assms] show ?thesis by simp
qed










lemma name_field_Ada:
  "validateField_rules sample_engine name_field (JStr ''Ada'') = Inr None"
  by (simp add: validateField_rules_def required_rule_def email_rule_def minLength_rule_def
      maxLength_rule_def min_rule_def max_rule_def pattern_rule_def is_empty_def
      name_field_def text_field_def)

lemma users_form_fields:
  "schema users_form = [(''name'', name_field)]"
  "values_p users_form = [(''name'', JStr ''Ada'')]" "database_p users_form = True"
  "showSuccess users_form = True" "resetOnSubmit users_form = False" "dataKey users_form = []"
  "path users_form = ''/users''" "errors_p users_form = []"
  by (simp_all add: users_form_def ada_form_def new_form_def)

lemma users_form_valid: "validateForm sample_engine users_form = (Inr True, users_form)"
  by (simp add: validateForm_def validateField_def read_field_def get_value_def
      name_field_Ada users_form_fields)



text \<open>
  Two submissions of valid forms at the edges of this statement. With a value store
  that holds the empty value of a key outside the schema, the preparing loop throws: the
  handler ends in its \<^verbatim>\<open>catch\<close> block and hands out no payload. With a field
  named \<^verbatim>\<open>_createdAt\<close>, the payload of an update has that key, with the value of
  the field.
\<close>

lemma submit_stale_key:
  "validateForm sample_engine stale_form = (Inr True, stale_form) \<and>
   \<not> loop_completes (schema stale_form) (values_p stale_form) \<and>
   handleSubmit sample_engine sample_world stale_form =
     (Caught TypeError, stale_form\<lparr>globalError_p := ''TypeError''\<rparr>,
      [Dispatch_form_error ''TypeError''])"
proof -
  have a: "schema stale_form = [(''name'', name_field)]"
    "values_p stale_form = [(''name'', JStr ''Ada''), (''nick'', JStr [])]"
    "errors_p stale_form = []"
    by (simp_all add: stale_form_def ada_form_def new_form_def)
  have v: "validateForm sample_engine stale_form = (Inr True, stale_form)"
    by (simp add: validateForm_def validateField_def read_field_def get_value_def
        name_field_Ada a)
  have l: "\<not> loop_completes (schema stale_form) (values_p stale_form)"
    by (simp add: loop_completes_def a read_field_def ObjectPrototype_names_def)
  have em: "error_message sample_engine TypeError = ''TypeError''"
    by (simp add: error_message_def sample_engine_def)
  have "handleSubmit sample_engine sample_world stale_form =
     (Caught TypeError, stale_form\<lparr>globalError_p := ''TypeError''\<rparr>,
      [Dispatch_form_error ''TypeError''])"
    by (simp add: handleSubmit_def v a read_field_def ObjectPrototype_names_def set_prop_def
        has_own_def em)
      (simp add: stale_form_def ada_form_def new_form_def)
  with v l show ?thesis by simp
qed

lemma submit_field_named_createdAt:
  "validateForm sample_engine stamped_form = (Inr True, stamped_form) \<and>
   dataKey stamped_form = ''-Nold'' \<and>
   handleSubmit sample_engine sample_world stamped_form =
     (Submitted, stamped_form\<lparr>showSuccessMessage_p := True\<rparr>,
      [Firebase_update ''/users/-Nold''
         [(''name'', JStr ''Ada''), (''_createdAt'', JStr ''2020''),
          (''_updatedAt'', JNum (Fin 1000))],
       Dispatch_form_submit
         [(''name'', JStr ''Ada''), (''_createdAt'', JStr ''2020''),
          (''_updatedAt'', JNum (Fin 1000))] ''-Nold'' ''/users'',
       SetTimeout 3000])"
proof -
  have a: "schema stamped_form = [(''name'', name_field), (''_createdAt'', text_field)]"
    "values_p stamped_form = [(''name'', JStr ''Ada''), (''_createdAt'', JStr ''2020'')]"
    "errors_p stamped_form = []" "database_p stamped_form" "path stamped_form = ''/users''"
    "dataKey stamped_form = ''-Nold''" "showSuccess stamped_form"
    "\<not> resetOnSubmit stamped_form"
    by (simp_all add: stamped_form_def users_form_def ada_form_def new_form_def)
  have t: "validateField_rules sample_engine text_field (JStr ''2020'') = Inr None"
    by (simp add: validateField_rules_def required_rule_def email_rule_def minLength_rule_def
        maxLength_rule_def min_rule_def max_rule_def pattern_rule_def is_empty_def
        text_field_def)
  have v: "validateForm sample_engine stamped_form = (Inr True, stamped_form)"
    by (simp add: validateForm_def validateField_def read_field_def get_value_def
        name_field_Ada t a)
  have w: "import_error sample_world = None" "write_error sample_world = None"
    "now_updatedAt sample_world = 1000"
    by (simp_all add: sample_world_def)
  have "handleSubmit sample_engine sample_world stamped_form =
     (Submitted, stamped_form\<lparr>showSuccessMessage_p := True\<rparr>,
      [Firebase_update ''/users/-Nold''
         [(''name'', JStr ''Ada''), (''_createdAt'', JStr ''2020''),
          (''_updatedAt'', JNum (Fin 1000))],
       Dispatch_form_submit
         [(''name'', JStr ''Ada''), (''_createdAt'', JStr ''2020''),
          (''_updatedAt'', JNum (Fin 1000))] ''-Nold'' ''/users'',
       SetTimeout 3000])"
    by (simp add: handleSubmit_def v a persist_def w set_prop_def has_own_def Let_def)
      (simp add: stamped_form_def users_form_def ada_form_def new_form_def)
  with v a show ?thesis by simp
qed

text \<open>
  C7. When the form is valid, a database and a path are configured, and the import of
  the database module or the write is rejected with message \<open>m\<close>, the handler ends in
  its \<^verbatim>\<open>catch\<close> block: the global error is \<open>m\<close>, exactly one
  \<^verbatim>\<open>form-error\<close> event is dispatched, with \<open>m\<close>, no \<^verbatim>\<open>form-submit\<close> event is
  dispatched, and the state afterwards is the state before with the error store empty,
  \<^verbatim>\<open>_loading\<close> false and the success banner off: the value store is untouched.
\<close>

theorem submit_persistence_failure:
  assumes "validateForm env s = (Inr True, s1)"
    and "list_all (\<lambda>k. read_field (schema s) k \<noteq> None) (map fst (values_p s))"
    and "database_p s" and "path s \<noteq> []"
    and "import_error w = Some m \<or> (import_error w = None \<and> write_error w = Some m)"
  shows "\<exists>fx. handleSubmit env w s =
             (Caught (Rejection m),
              s\<lparr>errors_p := [], loading_p := False, globalError_p := m,
                showSuccessMessage_p := False\<rparr>,
              fx) \<and>
           filter is_form_error fx = [Dispatch_form_error m] \<and>
           filter is_form_submit fx = [] \<and>
           values_p (fst (snd (handleSubmit env w s))) = values_p s"
proof -
  have s1: "s1 = s\<lparr>errors_p := []\<rparr>" using assms(1) by (rule validateForm_valid)
  obtain d0 where d0: "prepare_submitData (schema s) [] (values_p s) = Inr d0"
    using prepare_submitData_returns [OF assms(2)] by blast
  show ?thesis
    using assms(1,3,4,5) d0
    by (auto simp: handleSubmit_def s1 persist_def Let_def error_message_def
        split: option.splits)
qed

theorem submit_persistence_failure_witness:
  "validateForm sample_engine users_form = (Inr True, users_form) \<and>
   list_all (\<lambda>k. read_field (schema users_form) k \<noteq> None) (map fst (values_p users_form)) \<and>
   database_p users_form \<and> path users_form = ''/users'' \<and>
   import_error failing_world = None \<and> write_error failing_world = Some ''PERMISSION_DENIED'' \<and>
   handleSubmit sample_engine failing_world users_form =
     (Caught (Rejection ''PERMISSION_DENIED''),
      users_form\<lparr>errors_p := [], loading_p := False, globalError_p := ''PERMISSION_DENIED'',
        showSuccessMessage_p := False\<rparr>,
      [Firebase_set ''/users'' ''-Nabc''
         [(''name'', JStr ''Ada''), (''_updatedAt'', JNum (Fin 1000)),
          (''_createdAt'', JNum (Fin 1001))],
       Dispatch_form_error ''PERMISSION_DENIED'']) \<and>
   values_p (fst (snd (handleSubmit sample_engine failing_world users_form))) =
     [(''name'', JStr ''Ada'')]"
proof -
  have 1: "list_all (\<lambda>k. read_field (schema users_form) k \<noteq> None)
      (map fst (values_p users_form))"
    by (simp add: users_form_fields read_field_def)
  have 2: "import_error failing_world = None"
    "write_error failing_world = Some ''PERMISSION_DENIED''"
    "now_updatedAt failing_world = 1000" "now_createdAt failing_world = 1001"
    "push_key failing_world = ''-Nabc''"
    by (simp_all add: failing_world_def sample_world_def)
  have 3: "database_p users_form" "path users_form \<noteq> []"
    by (simp_all add: users_form_fields)
  have e: "handleSubmit sample_engine failing_world users_form =
     (Caught (Rejection ''PERMISSION_DENIED''),
      users_form\<lparr>errors_p := [], loading_p := False, globalError_p := ''PERMISSION_DENIED'',
        showSuccessMessage_p := False\<rparr>,
      [Firebase_set ''/users'' ''-Nabc''
         [(''name'', JStr ''Ada''), (''_updatedAt'', JNum (Fin 1000)),
          (''_createdAt'', JNum (Fin 1001))],
       Dispatch_form_error ''PERMISSION_DENIED''])"
    by (simp add: handleSubmit_def users_form_valid users_form_fields persist_def 2
        set_prop_def has_own_def error_message_def)
  from submit_persistence_failure [OF users_form_valid 1 3, of failing_world
      "''PERMISSION_DENIED''"] 2
  have "values_p (fst (snd (handleSubmit sample_engine failing_world users_form))) =
      values_p users_form"
    by auto
  with users_form_valid 1 2 3 e show ?thesis by (simp add: users_form_fields)
qed

end
